theory Spec2Isabelle
  imports Main "HOL-Library.Sublist"
begin

section \<open>JavaScript strings\<close>

text \<open>
  A JavaScript string is a sequence of UTF-16 code units, here the natural numbers
  below 65536. String literals of the source are ASCII and are written \<open>js ''...''\<close>;
  the emoji of the status lines are given by their surrogate pairs.
\<close>

type_synonym jschar = nat
type_synonym jsstring = "jschar list"

definition js :: "string \<Rightarrow> jsstring" where
  "js s = map of_char s"

text \<open>\<open>String.prototype.includes\<close>: the argument occurs somewhere in the string.\<close>

fun js_includes :: "jsstring \<Rightarrow> jsstring \<Rightarrow> bool" where
  "js_includes [] sub = (sub = [])"
| "js_includes (c # cs) sub = (prefix sub (c # cs) \<or> js_includes cs sub)"

text \<open>
  White space and line terminators of ECMAScript: what \<open>trim()\<close> strips and what the
  regular-expression class \<open>\s\<close> matches. The dot of a regular expression without the
  \<open>s\<close> flag matches every code unit but a line terminator.
\<close>

definition is_line_terminator :: "jschar \<Rightarrow> bool" where
  "is_line_terminator c = (c = 0x0A \<or> c = 0x0D \<or> c = 0x2028 \<or> c = 0x2029)"

definition is_space :: "jschar \<Rightarrow> bool" where
  "is_space c = (c = 0x09 \<or> c = 0x0B \<or> c = 0x0C \<or> c = 0x20 \<or> c = 0xA0 \<or> c = 0x1680
     \<or> (0x2000 \<le> c \<and> c \<le> 0x200A) \<or> c = 0x202F \<or> c = 0x205F \<or> c = 0x3000 \<or> c = 0xFEFF
     \<or> is_line_terminator c)"

definition js_trim :: "jsstring \<Rightarrow> jsstring" where
  "js_trim s = rev (dropWhile is_space (rev (dropWhile is_space s)))"

text \<open>
  Decimal rendering of a non-negative integer, as a template literal prints a number
  (JavaScript switches to exponent notation from \<open>1e21\<close> on; the numbers printed here
  stay far below).
\<close>

fun decimal :: "nat \<Rightarrow> jsstring" where
  "decimal n = (if n < 10 then [48 + n]
                else decimal (n div 10) @ [48 + n mod 10])"

declare decimal.simps [simp del]

section \<open>Thrown values and the outside world\<close>

text \<open>
  A thrown value, as far as the code inspects it: whether it is an \<open>Error\<close> instance,
  its \<open>status\<close> property and its \<open>message\<close> property.
\<close>

datatype js_error = JsError (is_Error: bool) (err_status: "int option") (err_message: "jsstring option")

definition new_Error :: "jsstring \<Rightarrow> js_error" where
  "new_Error m = JsError True None (Some m)"

text \<open>The value raised by the statement after the retry loop.\<close>

definition MaxRetriesExceeded :: js_error where
  "MaxRetriesExceeded = new_Error (js ''Max retries exceeded'')"

text \<open>
  What the caller-supplied sink receives: a piece of text, or the serialised event
  \<open>{type: 'image_generation_start', text}\<close>.
\<close>

datatype sink_chunk = Text jsstring | ImageGenerationStart jsstring

datatype effect =
    Attempt
  | Sleep int
  | ConsoleWarn jsstring
  | ConsoleError js_error
  | Sink sink_chunk
  | IncrementThinkingCount

text \<open>
  The world threaded through a turn: how many calls of the streaming endpoint were made
  so far (the endpoint's answer is a function of its request and of this number), and
  the effects in the order they happened.
\<close>

record world =
  calls :: nat
  trace :: "effect list"

definition log :: "effect \<Rightarrow> world \<Rightarrow> world" where
  "log e w = w\<lparr>trace := trace w @ [e]\<rparr>"

definition world0 :: world where
  "world0 = \<lparr>calls = 0, trace = []\<rparr>"

definition sleeps :: "world \<Rightarrow> int list" where
  "sleeps w = concat (map (\<lambda>e. case e of Sleep d \<Rightarrow> [d] | _ \<Rightarrow> []) (trace w))"

definition attempts :: "world \<Rightarrow> nat" where
  "attempts w = length (filter (\<lambda>e. e = Attempt) (trace w))"

section \<open>The retrying stream client\<close>

definition isQuotaError :: "js_error \<Rightarrow> bool" where
  "isQuotaError error =
     (err_status error = Some 429
      \<or> (case err_message error of None \<Rightarrow> False | Some m \<Rightarrow> m \<noteq> [] \<and> js_includes m (js ''429''))
      \<or> (case err_message error of None \<Rightarrow> False | Some m \<Rightarrow> m \<noteq> [] \<and> js_includes m (js ''quota'')))"

text \<open>
  \<open>Math.pow(2, attempt) * 2000 + 1000\<close>, and the seconds shown to the user,
  \<open>Math.round(delay / 1000)\<close>. The arithmetic is exact, as the source's is on doubles
  for every attempt number below 46.
\<close>

definition retry_delay :: "int \<Rightarrow> int" where
  "retry_delay attempt = 2 ^ nat attempt * 2000 + 1000"

definition retry_message :: "int \<Rightarrow> jsstring" where
  "retry_message delay =
     js ''(Rate limit hit. Retrying in '' @ decimal (nat ((delay + 500) div 1000)) @ js ''s...)''"

definition warn_message :: "int \<Rightarrow> jsstring" where
  "warn_message delay = js ''Quota limit hit. Retrying in '' @ decimal (nat delay) @ js ''ms...''"

text \<open>
  The loop of \<open>generateContentStreamWithRetry\<close> from a given attempt number on.
  \<open>upstream params n\<close> is what \<open>ai.models.generateContentStream(params)\<close> does at the
  \<open>n\<close>-th call of the turn: it raises (\<open>Inl\<close>) or returns a stream (\<open>Inr\<close>).
\<close>

function retry_loop ::
  "('p \<Rightarrow> nat \<Rightarrow> js_error + 'r) \<Rightarrow> 'p \<Rightarrow> int \<Rightarrow> (jsstring \<Rightarrow> world \<Rightarrow> world) option
     \<Rightarrow> int \<Rightarrow> world \<Rightarrow> (js_error + 'r) \<times> world" where
  "retry_loop upstream params retries onRetry attempt w =
     (if attempt \<le> retries then
        (let w1 = log Attempt (w\<lparr>calls := calls w + 1\<rparr>) in
         case upstream params (calls w) of
           Inr r \<Rightarrow> (Inr r, w1)
         | Inl error \<Rightarrow>
             if isQuotaError error \<and> attempt < retries then
               (let delay = retry_delay attempt;
                    w2 = log (ConsoleWarn (warn_message delay)) w1;
                    w3 = (case onRetry of None \<Rightarrow> w2 | Some f \<Rightarrow> f (retry_message delay) w2);
                    w4 = log (Sleep delay) w3
                in retry_loop upstream params retries onRetry (attempt + 1) w4)
             else (Inl error, w1))
      else (Inl MaxRetriesExceeded, w))"
  by pat_completeness auto
termination
  by (relation "measure (\<lambda>(upstream, params, retries, onRetry, attempt, w). nat (retries + 1 - attempt))")
     auto

declare retry_loop.simps [simp del]

definition generateContentStreamWithRetry ::
  "('p \<Rightarrow> nat \<Rightarrow> js_error + 'r) \<Rightarrow> 'p \<Rightarrow> int \<Rightarrow> (jsstring \<Rightarrow> world \<Rightarrow> world) option
     \<Rightarrow> world \<Rightarrow> (js_error + 'r) \<times> world" where
  "generateContentStreamWithRetry upstream params retries onRetry w =
     retry_loop upstream params retries onRetry 0 w"

text \<open>Every call of the endpoint fails with a quota-class error.\<close>

definition always_quota :: "('p \<Rightarrow> nat \<Rightarrow> js_error + 'r) \<Rightarrow> 'p \<Rightarrow> bool" where
  "always_quota upstream params =
     (\<forall>n. case upstream params n of Inl e \<Rightarrow> isQuotaError e | Inr r \<Rightarrow> False)"

text \<open>A progress callback that adds nothing but sink output keeps sleeps, attempts and calls.\<close>

definition quiet :: "(jsstring \<Rightarrow> world \<Rightarrow> world) option \<Rightarrow> bool" where
  "quiet onRetry = (case onRetry of None \<Rightarrow> True
     | Some f \<Rightarrow> \<forall>m w. calls (f m w) = calls w \<and> sleeps (f m w) = sleeps w \<and> attempts (f m w) = attempts w)"

text \<open>An endpoint that answers every call with HTTP 429.\<close>

definition quota429 :: js_error where
  "quota429 = JsError True (Some 429) (Some (js ''Too Many Requests''))"

definition always429 :: "unit \<Rightarrow> nat \<Rightarrow> js_error + unit" where
  "always429 params n = Inl quota429"

section \<open>Regular expressions of the tag protocol\<close>

text \<open>
  Under the \<open>i\<close> flag a pattern character and an input code unit match when their
  canonical forms agree. All pattern characters here are ASCII, and a code unit from
  128 on never canonicalises to an ASCII one, so upper-casing \<open>a\<close> to \<open>z\<close> decides it.
\<close>

definition ascii_upper :: "jschar \<Rightarrow> jschar" where
  "ascii_upper c = (if 0x61 \<le> c \<and> c \<le> 0x7A then c - 0x20 else c)"

definition ci_prefix :: "jsstring \<Rightarrow> jsstring \<Rightarrow> bool" where
  "ci_prefix p s = prefix (map ascii_upper p) (map ascii_upper s)"

definition open_tag :: "string \<Rightarrow> jsstring" where
  "open_tag t = js (''<'' @ t @ ''>'')"

definition close_tag :: "string \<Rightarrow> jsstring" where
  "close_tag t = js (''</'' @ t @ ''>'')"

text \<open>
  A regular expression is tried at every start position from the left; the first
  position where the anchored pattern matches gives the result.
\<close>

fun regex_first :: "(jsstring \<Rightarrow> 'a option) \<Rightarrow> jsstring \<Rightarrow> 'a option" where
  "regex_first anchored [] = anchored []"
| "regex_first anchored (c # cs) =
     (case anchored (c # cs) of Some r \<Rightarrow> Some r | None \<Rightarrow> regex_first anchored cs)"

text \<open>
  \<open>(.*?)\<close> followed by a closing tag: the shortest run of code units, none a line
  terminator, after which the closing tag stands. The result is the captured run.
\<close>

fun lazy_dot :: "(jsstring \<Rightarrow> bool) \<Rightarrow> jsstring \<Rightarrow> jsstring option" where
  "lazy_dot closing [] = (if closing [] then Some [] else None)"
| "lazy_dot closing (c # cs) =
     (if closing (c # cs) then Some []
      else if is_line_terminator c then None
      else map_option ((#) c) (lazy_dot closing cs))"

text \<open>
  \<open>\s+\<close> followed by the rest of a pattern: greedy, giving white space back one code
  unit at a time when the rest does not match.
\<close>

fun spaces_then :: "(jsstring \<Rightarrow> 'a option) \<Rightarrow> jsstring \<Rightarrow> 'a option" where
  "spaces_then rest [] = None"
| "spaces_then rest (c # cs) =
     (if is_space c
      then (case spaces_then rest cs of Some r \<Rightarrow> Some r | None \<Rightarrow> rest cs)
      else None)"

text \<open>\<open>/<T>(.*?)<\/T>/\<close>, case-sensitive: the first capture group of the match.\<close>

definition pair_at :: "string \<Rightarrow> jsstring \<Rightarrow> jsstring option" where
  "pair_at t s =
     (if prefix (open_tag t) s
      then lazy_dot (prefix (close_tag t)) (drop (length (open_tag t)) s)
      else None)"

definition match_pair :: "string \<Rightarrow> jsstring \<Rightarrow> jsstring option" where
  "match_pair t s = regex_first (pair_at t) s"

text \<open>\<open>/<SEARCH>deep\s+(.*?)<\/SEARCH>/i\<close>: the first capture group of the match.\<close>

definition deep_search_at :: "jsstring \<Rightarrow> jsstring option" where
  "deep_search_at s =
     (if ci_prefix (js ''<SEARCH>deep'') s
      then spaces_then (lazy_dot (ci_prefix (js ''</SEARCH>''))) (drop (length ''<SEARCH>deep'') s)
      else None)"

definition match_deep_search :: "jsstring \<Rightarrow> jsstring option" where
  "match_deep_search s = regex_first deep_search_at s"

section \<open>Display-time extraction\<close>

text \<open>
  \<open>([\s\S]*?)(?:<\/T>|$)\<close> under the \<open>i\<close> flag: the shortest run of any code units up
  to the closing tag or, failing that, the end of the text.
\<close>

fun lazy_any_or_end :: "jsstring \<Rightarrow> jsstring \<Rightarrow> jsstring" where
  "lazy_any_or_end cls [] = []"
| "lazy_any_or_end cls (c # cs) =
     (if ci_prefix cls (c # cs) then [] else c # lazy_any_or_end cls cs)"

definition block_at :: "string \<Rightarrow> jsstring \<Rightarrow> jsstring option" where
  "block_at t s =
     (if ci_prefix (open_tag t) s
      then Some (lazy_any_or_end (close_tag t) (drop (length (open_tag t)) s))
      else None)"

definition match_block :: "string \<Rightarrow> jsstring \<Rightarrow> jsstring option" where
  "match_block t s = regex_first (block_at t) s"

text \<open>
  \<open>[\s\S]*?\<close> followed by a closing tag under the \<open>i\<close> flag: how many code units
  stand before the first closing tag, if there is one.
\<close>

fun lazy_any :: "jsstring \<Rightarrow> jsstring \<Rightarrow> nat option" where
  "lazy_any cls [] = (if ci_prefix cls [] then Some 0 else None)"
| "lazy_any cls (c # cs) =
     (if ci_prefix cls (c # cs) then Some 0 else map_option Suc (lazy_any cls cs))"

text \<open>
  The length of the match of \<open>/<T>[\s\S]*?<\/T>/i\<close> anchored at the start of the
  text, and of \<open>/<T>[\s\S]*/i\<close>, which runs to the end of the text.
\<close>

definition paired_block_len :: "string \<Rightarrow> jsstring \<Rightarrow> nat option" where
  "paired_block_len t s =
     (if ci_prefix (open_tag t) s
      then map_option (\<lambda>n. length (open_tag t) + n + length (close_tag t))
             (lazy_any (close_tag t) (drop (length (open_tag t)) s))
      else None)"

definition open_block_len :: "string \<Rightarrow> jsstring \<Rightarrow> nat option" where
  "open_block_len t s = (if ci_prefix (open_tag t) s then Some (length s) else None)"

text \<open>
  \<open>s.replace(re, '')\<close> with the \<open>g\<close> flag: matches are looked for from the left, each
  match is deleted and the search goes on behind it. \<open>skip\<close> counts the code units of
  the current match that are still to be deleted.
\<close>

fun delete_from :: "(jsstring \<Rightarrow> nat option) \<Rightarrow> nat \<Rightarrow> jsstring \<Rightarrow> jsstring" where
  "delete_from len skip [] = []"
| "delete_from len (Suc skip) (c # cs) = delete_from len skip cs"
| "delete_from len 0 (c # cs) =
     (case len (c # cs) of
        None \<Rightarrow> c # delete_from len 0 cs
      | Some n \<Rightarrow> if n = 0 then c # delete_from len 0 cs else delete_from len (n - 1) cs)"

definition delete_all :: "(jsstring \<Rightarrow> nat option) \<Rightarrow> jsstring \<Rightarrow> jsstring" where
  "delete_all len s = delete_from len 0 s"

text \<open>
  The clean-up of a canvas block wrapped in a code fence:
  \<open>.replace(/^```\w*\n?/, '').replace(/```$/, '').trim()\<close>.
\<close>

definition is_word_char :: "jschar \<Rightarrow> bool" where
  "is_word_char c = ((0x30 \<le> c \<and> c \<le> 0x39) \<or> (0x41 \<le> c \<and> c \<le> 0x5A) \<or> c = 0x5F
     \<or> (0x61 \<le> c \<and> c \<le> 0x7A))"

definition strip_fence_start :: "jsstring \<Rightarrow> jsstring" where
  "strip_fence_start s =
     (if prefix (js ''```'') s
      then (let r = dropWhile is_word_char (drop 3 s)
            in case r of [] \<Rightarrow> [] | c # cs \<Rightarrow> if c = 0x0A then cs else c # cs)
      else s)"

definition strip_fence_end :: "jsstring \<Rightarrow> jsstring" where
  "strip_fence_end s = (if suffix (js ''```'') s then take (length s - 3) s else s)"

record parsed =
  thinking :: "jsstring option"
  canvas :: "jsstring option"
  clean :: jsstring

definition clean_text :: "jsstring \<Rightarrow> jsstring" where
  "clean_text content =
     js_trim
       (delete_all (paired_block_len ''DEEP'')
       (delete_all (paired_block_len ''STUDY'')
       (delete_all (paired_block_len ''PROJECT'')
       (delete_all (paired_block_len ''SEARCH'')
       (delete_all (paired_block_len ''IMAGE'')
       (delete_all (paired_block_len ''MEMORY'')
       (delete_all (open_block_len ''CANVAS'')
       (delete_all (paired_block_len ''CANVAS'')
       (delete_all (open_block_len ''THINK'')
       (delete_all (paired_block_len ''THINK'') content))))))))))"

definition parseMessageContent :: "jsstring \<Rightarrow> parsed" where
  "parseMessageContent content =
     (if content = [] then \<lparr>thinking = None, canvas = None, clean = []\<rparr>
      else
        (let thinkMatch = match_block ''THINK'' content;
             thinking = map_option js_trim thinkMatch;
             canvasMatch = match_block ''CANVAS'' content;
             canvas = map_option js_trim canvasMatch;
             canvas = (case canvas of
                         None \<Rightarrow> None
                       | Some c \<Rightarrow> if c = [] then Some c
                                   else Some (js_trim (strip_fence_end (strip_fence_start c))))
         in \<lparr>thinking = thinking, canvas = canvas, clean = clean_text content\<rparr>))"

text \<open>
  The marker names the clean-up knows, and whether a tag stands somewhere in a text (in
  any letter case).
\<close>

definition marker_names :: "string list" where
  "marker_names = [''THINK'', ''CANVAS'', ''MEMORY'', ''IMAGE'', ''SEARCH'', ''PROJECT'', ''STUDY'', ''DEEP'']"

fun ci_includes :: "jsstring \<Rightarrow> jsstring \<Rightarrow> bool" where
  "ci_includes [] p = ci_prefix p []"
| "ci_includes (c # cs) p = (ci_prefix p (c # cs) \<or> ci_includes cs p)"

section \<open>The data of a turn\<close>

text \<open>
  Modelled from the spec: the type \<open>RouterAction\<close>, which the source imports from the
  semantic router and which is not among the sources. The specification lists its
  values; the \<open>switch\<close> of the loop has one case for each, and \<open>SIMPLE\<close> shares its case
  with \<open>default\<close>.
\<close>

datatype RouterAction = SEARCH | DEEP_SEARCH | THINK | IMAGE | CANVAS | PROJECT | STUDY | SIMPLE

datatype groundingChunk = GroundingChunk (uri: jsstring) (title: jsstring)

text \<open>
  A chunk of the stream, as far as the code reads it: \<open>chunk.text\<close> and
  \<open>chunk.candidates?.[0]?.groundingMetadata?.groundingChunks\<close>, each possibly undefined.
  A stream yields its chunks and then ends, or fails after them.
\<close>

record chunk =
  chunk_text :: "jsstring option"
  groundingChunks :: "groundingChunk list option"

record stream =
  chunks :: "chunk list"
  failure :: "js_error option"

datatype part = TextPart jsstring | InlineData "jsstring option" jsstring

record content =
  role :: jsstring
  parts :: "part list"

datatype contents = Plain jsstring | Turns "content list"

record request =
  model :: jsstring
  contents :: contents
  systemInstruction :: "jsstring option"
  googleSearch :: bool
  thinkingBudget :: "nat option"
  responseMimeType :: "jsstring option"

text \<open>
  An attached file: its MIME type and what reading it as a data URL gives, an error or
  the part of the URL behind the first comma.
\<close>

record attached_file =
  mimeType :: jsstring
  readAsDataURL :: "js_error + jsstring option"

text \<open>
  Modelled from the spec: the types \<open>AgentInput\<close> and \<open>AgentExecutionResult\<close>, whose
  declarations are not among the sources. The fields are the ones the function reads
  from its input (\<open>project.id\<close>, \<open>chat.id\<close>, \<open>user.id\<close>,
  \<open>profile?.preferred_image_model\<close>, whether a sink was passed) and writes into the
  messages it returns.
\<close>

record history_message =
  history_sender :: jsstring
  history_text :: jsstring

record AgentInput =
  prompt :: jsstring
  files :: "attached_file list option"
  apiKey :: jsstring
  input_project_id :: jsstring
  input_chat_id :: jsstring
  history :: "history_message list"
  user_id :: jsstring
  preferred_image_model :: "jsstring option"
  onStreamChunk :: bool

record message =
  project_id :: jsstring
  chat_id :: jsstring
  sender :: jsstring
  text' :: jsstring
  image_base64 :: "jsstring option"
  groundingMetadata :: "groundingChunk list option"

record AgentExecutionResult =
  messages :: "message list"

record routing =
  action :: RouterAction
  parameters_prompt :: "jsstring option"

record research =
  answer :: jsstring
  sources :: "jsstring list"

text \<open>
  The collaborators of a turn, which are not part of this code: each is a function of
  what the code passes to it. The streaming endpoint also depends on how many calls were
  made before. The research and canvas collaborators may write to the sink they are
  handed; what they write comes first in their result. \<open>getContext\<close> is the memory
  snapshot as \<open>JSON.stringify\<close> prints it. The usage counter swallows its own failures
  and has no result. \<open>getUserFriendlyError\<close> and \<open>autonomousInstruction\<close> are imported
  by the source from files that are not among the sources, so they are taken as they
  come. The sink and the constructors of the clients are taken not to raise.
\<close>

record env =
  route :: "jsstring \<Rightarrow> jsstring \<Rightarrow> jsstring \<Rightarrow> nat \<Rightarrow> js_error + routing"
  getContext :: "js_error + jsstring"
  formatTimestamp :: jsstring
  autonomousInstruction :: jsstring
  generateContentStream :: "request \<Rightarrow> nat \<Rightarrow> js_error + stream"
  generateContent :: "request \<Rightarrow> js_error + jsstring option"
  deepResearch :: "jsstring \<Rightarrow> jsstring list \<times> (js_error + research)"
  generateImage :: "jsstring \<Rightarrow> jsstring \<Rightarrow> jsstring option \<Rightarrow> js_error + jsstring"
  runCanvasAgent :: "AgentInput \<Rightarrow> sink_chunk list \<times> (js_error + jsstring option list)"
  getUserFriendlyError :: "js_error \<Rightarrow> jsstring"

text \<open>The local variables of \<open>runAutonomousAgent\<close> that the loop changes.\<close>

record vars =
  finalResponseText :: jsstring
  metadataPayload :: "groundingChunk list option"
  currentAction :: RouterAction
  currentPrompt :: jsstring
  routing_parameters_prompt :: "jsstring option"

record turn_context =
  memoryContext :: jsstring
  dateTimeContext :: jsstring

datatype outcome = Return AgentExecutionResult | Continue | Throw js_error

section \<open>Helpers of the handlers\<close>

text \<open>\<open>onStreamChunk?.(c)\<close>: the sink is optional.\<close>

definition emit :: "AgentInput \<Rightarrow> sink_chunk \<Rightarrow> world \<Rightarrow> world" where
  "emit inp c w = (if onStreamChunk inp then log (Sink c) w else w)"

text \<open>An undefined value inside a template literal prints as \<open>undefined\<close>.\<close>

definition template :: "jsstring option \<Rightarrow> jsstring" where
  "template s = (case s of None \<Rightarrow> js ''undefined'' | Some t \<Rightarrow> t)"

fun js_join :: "jsstring \<Rightarrow> jsstring list \<Rightarrow> jsstring" where
  "js_join sep [] = []"
| "js_join sep [x] = x"
| "js_join sep (x # y # ys) = x @ sep @ js_join sep (y # ys)"

text \<open>
  The message every return statement of the loop builds:
  \<open>{project_id: project.id, chat_id: chat.id, sender: 'ai', text: finalResponseText,
  ...metadataPayload}\<close>.
\<close>

definition reply :: "AgentInput \<Rightarrow> vars \<Rightarrow> AgentExecutionResult" where
  "reply inp v =
     \<lparr>messages = [\<lparr>project_id = input_project_id inp, chat_id = input_chat_id inp,
                   sender = js ''ai'', text' = finalResponseText v, image_base64 = None,
                   groundingMetadata = metadataPayload v\<rparr>]\<rparr>"

definition push_grounding :: "groundingChunk list \<Rightarrow> vars \<Rightarrow> vars" where
  "push_grounding gs v =
     v\<lparr>metadataPayload := Some ((case metadataPayload v of None \<Rightarrow> [] | Some m \<Rightarrow> m) @ gs)\<rparr>"

text \<open>The body of the \<open>for await\<close> loop of the SEARCH handler.\<close>

definition search_chunk :: "AgentInput \<Rightarrow> chunk \<Rightarrow> vars \<times> world \<Rightarrow> vars \<times> world" where
  "search_chunk inp c s =
     (let (v, w) = s;
          (v1, w1) = (case chunk_text c of
                        None \<Rightarrow> (v, w)
                      | Some t \<Rightarrow> if t = [] then (v, w)
                                  else (v\<lparr>finalResponseText := finalResponseText v @ t\<rparr>,
                                        emit inp (Text t) w));
          v2 = (case groundingChunks c of None \<Rightarrow> v1 | Some gs \<Rightarrow> push_grounding gs v1)
      in (v2, w1))"

text \<open>The body of the \<open>for await\<close> loop of the THINK and STUDY handlers.\<close>

definition text_chunk :: "AgentInput \<Rightarrow> chunk \<Rightarrow> vars \<times> world \<Rightarrow> vars \<times> world" where
  "text_chunk inp c s =
     (let (v, w) = s
      in case chunk_text c of
           None \<Rightarrow> (v, w)
         | Some t \<Rightarrow> if t = [] then (v, w)
                     else (v\<lparr>finalResponseText := finalResponseText v @ t\<rparr>, emit inp (Text t) w))"

text \<open>
  The body of the \<open>for await\<close> loop of the SIMPLE handler; the first component is
  \<open>generatedThisLoop\<close>.
\<close>

definition simple_chunk ::
  "AgentInput \<Rightarrow> chunk \<Rightarrow> jsstring \<times> vars \<times> world \<Rightarrow> jsstring \<times> vars \<times> world" where
  "simple_chunk inp c s =
     (let (generatedThisLoop, v, w) = s
      in case chunk_text c of
           None \<Rightarrow> (generatedThisLoop, v, w)
         | Some t \<Rightarrow>
             if t = [] then (generatedThisLoop, v, w)
             else (let v1 = v\<lparr>finalResponseText := finalResponseText v @ t\<rparr>;
                       w1 = emit inp (Text t) w;
                       v2 = (case groundingChunks c of None \<Rightarrow> v1 | Some gs \<Rightarrow> push_grounding gs v1)
                   in (generatedThisLoop @ t, v2, w1)))"

text \<open>
  \<open>generateContentStreamWithRetry(ai, request, 3, (msg) => onStreamChunk?.(msg))\<close>, as
  the four streaming handlers call it.
\<close>

definition stream_with_retry ::
  "env \<Rightarrow> AgentInput \<Rightarrow> request \<Rightarrow> world \<Rightarrow> (js_error + stream) \<times> world" where
  "stream_with_retry E inp req w =
     generateContentStreamWithRetry (generateContentStream E) req 3
       (Some (\<lambda>msg. emit inp (Text msg))) w"

definition flash :: jsstring where
  "flash = js ''gemini-2.5-flash''"

definition geminiHistory :: "AgentInput \<Rightarrow> content list" where
  "geminiHistory inp =
     filter (\<lambda>msg. case parts msg of TextPart t # rest \<Rightarrow> js_trim t \<noteq> [] | _ \<Rightarrow> True)
       (map (\<lambda>msg. \<lparr>role = (if history_sender msg = js ''user'' then js ''user'' else js ''model''),
                    parts = [TextPart (history_text msg)]\<rparr>)
            (history inp))"

text \<open>
  Reading the attached files one after the other; each is put in front of the parts
  collected so far, and the first failure ends the reading.
\<close>

fun read_files :: "attached_file list \<Rightarrow> part list \<Rightarrow> js_error + part list" where
  "read_files [] userParts = Inr userParts"
| "read_files (f # fs) userParts =
     (case readAsDataURL f of
        Inl e \<Rightarrow> Inl e
      | Inr base64EncodedData \<Rightarrow> read_files fs (InlineData base64EncodedData (mimeType f) # userParts))"

text \<open>Reading \<open>.text\<close> of a missing first canvas message raises a type error.\<close>

definition TypeError_text_of_undefined :: js_error where
  "TypeError_text_of_undefined =
     new_Error (js ''Cannot read properties of undefined (reading 'text')'')"

section \<open>The skill handlers\<close>

text \<open>
  Each handler is one case of the \<open>switch\<close>: from the variables and the world it gives
  what the case does (return a result, \<open>continue\<close> the loop, or raise) with the variables
  and the world as it leaves them.
\<close>

definition handle_SEARCH ::
  "env \<Rightarrow> AgentInput \<Rightarrow> turn_context \<Rightarrow> vars \<Rightarrow> world \<Rightarrow> outcome \<times> vars \<times> world" where
  "handle_SEARCH E inp ctx v w =
     (let w1 = emit inp (Text (js ''\<newline>Searching the web... '' @ [0xD83C, 0xDF10] @ js ''\<newline>'')) w;
          searchSystemPrompt = autonomousInstruction E @ js ''\<newline>\<newline>'' @ dateTimeContext ctx
            @ js ''\<newline>\<newline>Your task: Provide a helpful, friendly answer to the user's query using Google Search. Maintain your persona (Bubble). Cite sources naturally.'';
          (r, w2) = stream_with_retry E inp
            \<lparr>model = flash, contents = Plain (js ''User Query: '' @ currentPrompt v),
             systemInstruction = Some searchSystemPrompt, googleSearch = True,
             thinkingBudget = None, responseMimeType = None\<rparr> w1
      in case r of
           Inl e \<Rightarrow> (Throw e, v, w2)
         | Inr searchResponse \<Rightarrow>
             (let (v3, w3) = fold (search_chunk inp) (chunks searchResponse) (v, w2)
              in case failure searchResponse of
                   Some e \<Rightarrow> (Throw e, v3, w3)
                 | None \<Rightarrow> (Return (reply inp v3), v3, w3)))"

definition handle_DEEP_SEARCH ::
  "env \<Rightarrow> AgentInput \<Rightarrow> turn_context \<Rightarrow> vars \<Rightarrow> world \<Rightarrow> outcome \<times> vars \<times> world" where
  "handle_DEEP_SEARCH E inp ctx v w =
     (let w1 = emit inp (Text (js ''\<newline>Deep Researching... '' @ [0xD83D, 0xDCDA] @ js ''\<newline>'')) w;
          (progress, r) = deepResearch E (currentPrompt v);
          w2 = fold (\<lambda>msg. emit inp (Text (js ''\<newline>*'' @ msg @ js ''*''))) progress w1
      in case r of
           Inl e \<Rightarrow> (Throw e, v, w2)
         | Inr result \<Rightarrow>
             (let researchText = answer result @ js ''\<newline>\<newline>**Sources:**\<newline>''
                    @ js_join (js ''\<newline>'') (sources result);
                  v1 = v\<lparr>finalResponseText := finalResponseText v @ js ''\<newline>\<newline>'' @ researchText\<rparr>;
                  w3 = emit inp (Text researchText) w2
              in (Return (reply inp v1), v1, w3)))"

definition handle_THINK ::
  "env \<Rightarrow> AgentInput \<Rightarrow> turn_context \<Rightarrow> vars \<Rightarrow> world \<Rightarrow> outcome \<times> vars \<times> world" where
  "handle_THINK E inp ctx v w =
     (let w1 = emit inp (Text (js ''\<newline>Thinking deeply... '' @ [0xD83E, 0xDDE0] @ js ''\<newline>'')) w;
          w2 = log IncrementThinkingCount w1;
          contextBlock = autonomousInstruction E @ js ''\<newline>\<newline>'' @ dateTimeContext ctx
            @ js ''\<newline>\<newline>[MEMORY]\<newline>'' @ memoryContext ctx
            @ js ''\<newline>\<newline>[TASK]\<newline>'' @ currentPrompt v;
          contents = geminiHistory inp @ [\<lparr>role = js ''user'', parts = [TextPart contextBlock]\<rparr>];
          (r, w3) = stream_with_retry E inp
            \<lparr>model = flash, contents = Turns contents, systemInstruction = None,
             googleSearch = False, thinkingBudget = Some 2048, responseMimeType = None\<rparr> w2
      in case r of
           Inl e \<Rightarrow> (Throw e, v, w3)
         | Inr response \<Rightarrow>
             (let (v4, w4) = fold (text_chunk inp) (chunks response) (v, w3)
              in case failure response of
                   Some e \<Rightarrow> (Throw e, v4, w4)
                 | None \<Rightarrow> (Return (reply inp v4), v4, w4)))"

definition handle_IMAGE ::
  "env \<Rightarrow> AgentInput \<Rightarrow> turn_context \<Rightarrow> vars \<Rightarrow> world \<Rightarrow> outcome \<times> vars \<times> world" where
  "handle_IMAGE E inp ctx v w =
     (let w1 = emit inp (ImageGenerationStart (finalResponseText v)) w;
          imagePrompt = (case routing_parameters_prompt v of
                           None \<Rightarrow> currentPrompt v
                         | Some p \<Rightarrow> if p = [] then currentPrompt v else p)
      in case generateImage E imagePrompt (apiKey inp) (preferred_image_model inp) of
           Inr imageBase64 \<Rightarrow>
             (Return \<lparr>messages = [\<lparr>project_id = input_project_id inp, chat_id = input_chat_id inp,
                                   sender = js ''ai'', text' = finalResponseText v,
                                   image_base64 = Some imageBase64,
                                   groundingMetadata = metadataPayload v\<rparr>]\<rparr>, v, w1)
         | Inl e \<Rightarrow>
             (let errorMsg = js ''\<newline>\<newline>(Image generation failed: ''
                    @ (if is_Error e then template (err_message e) else js ''Unknown error'') @ js '')'';
                  v1 = v\<lparr>finalResponseText := finalResponseText v @ errorMsg\<rparr>;
                  w2 = emit inp (Text errorMsg) w1
              in (Return (reply inp v1), v1, w2)))"

definition handle_CANVAS ::
  "env \<Rightarrow> AgentInput \<Rightarrow> turn_context \<Rightarrow> vars \<Rightarrow> world \<Rightarrow> outcome \<times> vars \<times> world" where
  "handle_CANVAS E inp ctx v w =
     (let (written, r) = runCanvasAgent E (inp\<lparr>prompt := currentPrompt v\<rparr>);
          w1 = fold (emit inp) written w
      in case r of
           Inl e \<Rightarrow> (Throw e, v, w1)
         | Inr canvasMessages \<Rightarrow>
             (case canvasMessages of
                [] \<Rightarrow> (Throw TypeError_text_of_undefined, v, w1)
              | canvasMessage # rest \<Rightarrow>
                  (let v1 = v\<lparr>finalResponseText :=
                              (case canvasMessage of None \<Rightarrow> [] | Some t \<Rightarrow> t)\<rparr>
                   in (Return (reply inp v1), v1, w1))))"

definition handle_PROJECT ::
  "env \<Rightarrow> AgentInput \<Rightarrow> turn_context \<Rightarrow> vars \<Rightarrow> world \<Rightarrow> outcome \<times> vars \<times> world" where
  "handle_PROJECT E inp ctx v w =
     (let w1 = emit inp (Text (js ''\<newline>Building project structure... ''
                 @ [0xD83C, 0xDFD7, 0xFE0F] @ js ''\<newline>'')) w
      in case generateContent E
             \<lparr>model = flash,
              contents = Plain (js ''Build a complete file structure for a project: '' @ currentPrompt v
                @ js ''. Return a JSON object with filenames and brief content descriptions.''),
              systemInstruction = None, googleSearch = False, thinkingBudget = None,
              responseMimeType = Some (js ''application/json'')\<rparr> of
           Inl e \<Rightarrow> (Throw e, v, w1)
         | Inr response_text \<Rightarrow>
             (let projectMsg = js ''\<newline>I've designed the project structure based on your request.\<newline>\<newline>''
                    @ template response_text
                    @ js ''\<newline>\<newline>(Switch to Co-Creator mode to fully hydrate and edit these files.)'';
                  v1 = v\<lparr>finalResponseText := finalResponseText v @ projectMsg\<rparr>;
                  w2 = emit inp (Text projectMsg) w1
              in (Return (reply inp v1), v1, w2)))"

definition handle_STUDY ::
  "env \<Rightarrow> AgentInput \<Rightarrow> turn_context \<Rightarrow> vars \<Rightarrow> world \<Rightarrow> outcome \<times> vars \<times> world" where
  "handle_STUDY E inp ctx v w =
     (let w1 = emit inp (Text (js ''\<newline>Creating study plan... '' @ [0xD83C, 0xDF93] @ js ''\<newline>'')) w;
          (r, w2) = stream_with_retry E inp
            \<lparr>model = flash,
             contents = Plain (js ''Create a structured study plan for: '' @ currentPrompt v
               @ js ''. Include learning objectives and key concepts.''),
             systemInstruction = None, googleSearch = False, thinkingBudget = None,
             responseMimeType = None\<rparr> w1
      in case r of
           Inl e \<Rightarrow> (Throw e, v, w2)
         | Inr response \<Rightarrow>
             (let (v3, w3) = fold (text_chunk inp) (chunks response) (v, w2)
              in case failure response of
                   Some e \<Rightarrow> (Throw e, v3, w3)
                 | None \<Rightarrow> (Return (reply inp v3), v3, w3)))"

text \<open>
  Redirect detection on the text the SIMPLE handler generated in this iteration: the
  seven \<open>match\<close> calls and the chain of \<open>if (...) { ...; continue; }\<close>. The result is the
  changed variables when a redirect is taken. \<open>thinkMatch\<close> is \<open>Some (Some p)\<close> for a
  paired marker with payload \<open>p\<close> and \<open>Some None\<close> for the bare opening tag, whose match
  has no capture group.
\<close>

definition redirect :: "jsstring \<Rightarrow> jsstring \<Rightarrow> vars \<Rightarrow> vars option" where
  "redirect original_prompt generatedThisLoop v =
     (let searchMatch = match_pair ''SEARCH'' generatedThisLoop;
          deepMatch = (case match_pair ''DEEP'' generatedThisLoop of
                         Some p \<Rightarrow> Some p
                       | None \<Rightarrow> match_deep_search generatedThisLoop);
          thinkMatch = (case match_pair ''THINK'' generatedThisLoop of
                          Some p \<Rightarrow> Some (Some p)
                        | None \<Rightarrow> if js_includes generatedThisLoop (open_tag ''THINK'')
                                  then Some None else None);
          imageMatch = match_pair ''IMAGE'' generatedThisLoop;
          projectMatch = match_pair ''PROJECT'' generatedThisLoop;
          canvasMatch = match_pair ''CANVAS'' generatedThisLoop;
          studyMatch = match_pair ''STUDY'' generatedThisLoop
      in case deepMatch of
           Some p \<Rightarrow> Some (v\<lparr>currentAction := DEEP_SEARCH, currentPrompt := p\<rparr>)
         | None \<Rightarrow>
       (case searchMatch of
           Some p \<Rightarrow> Some (v\<lparr>currentAction := SEARCH, currentPrompt := p\<rparr>)
         | None \<Rightarrow>
       (case thinkMatch of
           Some g \<Rightarrow> Some (v\<lparr>currentAction := THINK,
                               currentPrompt := (case g of
                                                   None \<Rightarrow> original_prompt
                                                 | Some p \<Rightarrow> if p = [] then original_prompt
                                                             else js_trim p)\<rparr>)
         | None \<Rightarrow>
       (case imageMatch of
           Some p \<Rightarrow> Some (v\<lparr>currentAction := IMAGE, currentPrompt := p,
                               routing_parameters_prompt := Some p\<rparr>)
         | None \<Rightarrow>
       (case projectMatch of
           Some p \<Rightarrow> Some (v\<lparr>currentAction := PROJECT, currentPrompt := p\<rparr>)
         | None \<Rightarrow>
       (case canvasMatch of
           Some p \<Rightarrow> Some (v\<lparr>currentAction := CANVAS, currentPrompt := p\<rparr>)
         | None \<Rightarrow>
       (case studyMatch of
           Some p \<Rightarrow> Some (v\<lparr>currentAction := STUDY, currentPrompt := p\<rparr>)
         | None \<Rightarrow> None)))))))"

definition handle_SIMPLE ::
  "env \<Rightarrow> AgentInput \<Rightarrow> turn_context \<Rightarrow> vars \<Rightarrow> world \<Rightarrow> outcome \<times> vars \<times> world" where
  "handle_SIMPLE E inp ctx v w =
     (let systemPrompt = autonomousInstruction E @ js ''\<newline>\<newline>[MEMORY]\<newline>'' @ memoryContext ctx
            @ js ''\<newline>\<newline>'' @ dateTimeContext ctx;
          userParts = (case files inp of
                         None \<Rightarrow> Inr [TextPart (currentPrompt v)]
                       | Some fs \<Rightarrow> read_files fs [TextPart (currentPrompt v)])
      in case userParts of
           Inl e \<Rightarrow> (Throw e, v, w)
         | Inr userParts \<Rightarrow>
             (let contents = geminiHistory inp @ [\<lparr>role = js ''user'', parts = userParts\<rparr>];
                  (r, w1) = stream_with_retry E inp
                    \<lparr>model = flash, contents = Turns contents, systemInstruction = Some systemPrompt,
                     googleSearch = False, thinkingBudget = None, responseMimeType = None\<rparr> w
              in case r of
                   Inl e \<Rightarrow> (Throw e, v, w1)
                 | Inr response \<Rightarrow>
                     (let (generatedThisLoop, v2, w2) =
                            fold (simple_chunk inp) (chunks response) ([], v, w1)
                      in case failure response of
                           Some e \<Rightarrow> (Throw e, v2, w2)
                         | None \<Rightarrow>
                             (case redirect (prompt inp) generatedThisLoop v2 of
                                Some v3 \<Rightarrow> (Continue, v3, w2)
                              | None \<Rightarrow> (Return (reply inp v2), v2, w2)))))"

section \<open>The orchestration loop and the entry point\<close>

definition run_handler ::
  "env \<Rightarrow> AgentInput \<Rightarrow> turn_context \<Rightarrow> vars \<Rightarrow> world \<Rightarrow> outcome \<times> vars \<times> world" where
  "run_handler E inp ctx v w =
     (case currentAction v of
        SEARCH \<Rightarrow> handle_SEARCH E inp ctx v w
      | DEEP_SEARCH \<Rightarrow> handle_DEEP_SEARCH E inp ctx v w
      | THINK \<Rightarrow> handle_THINK E inp ctx v w
      | IMAGE \<Rightarrow> handle_IMAGE E inp ctx v w
      | CANVAS \<Rightarrow> handle_CANVAS E inp ctx v w
      | PROJECT \<Rightarrow> handle_PROJECT E inp ctx v w
      | STUDY \<Rightarrow> handle_STUDY E inp ctx v w
      | SIMPLE \<Rightarrow> handle_SIMPLE E inp ctx v w)"

definition MAX_LOOPS :: nat where
  "MAX_LOOPS = 2"

text \<open>
  The \<open>while\<close> loop from a given \<open>loopCount\<close> on. Its result is what the \<open>try\<close> block does
  (it raises, \<open>Inl\<close>, or returns, \<open>Inr\<close>), together with the final \<open>loopCount\<close>, that is
  the number of handler iterations carried out, and the final variables and world.
\<close>

function agent_loop ::
  "env \<Rightarrow> AgentInput \<Rightarrow> turn_context \<Rightarrow> nat \<Rightarrow> vars \<Rightarrow> world
     \<Rightarrow> (js_error + AgentExecutionResult) \<times> nat \<times> vars \<times> world" where
  "agent_loop E inp ctx loopCount v w =
     (if loopCount < MAX_LOOPS then
        (let (out, v1, w1) = run_handler E inp ctx v w
         in case out of
              Return result \<Rightarrow> (Inr result, loopCount + 1, v1, w1)
            | Throw e \<Rightarrow> (Inl e, loopCount + 1, v1, w1)
            | Continue \<Rightarrow> agent_loop E inp ctx (loopCount + 1) v1 w1)
      else (Inr (reply inp v), loopCount, v, w))"
  by pat_completeness auto
termination
  by (relation "measure (\<lambda>(E, inp, ctx, loopCount, v, w). MAX_LOOPS - loopCount)") auto

declare agent_loop.simps [simp del]

text \<open>
  The \<open>try\<close> block of \<open>runAutonomousAgent\<close>: routing, the memory snapshot, the initial
  variables, the loop.
\<close>

definition try_block ::
  "env \<Rightarrow> AgentInput \<Rightarrow> world \<Rightarrow> (js_error + AgentExecutionResult) \<times> nat \<times> world" where
  "try_block E inp w =
     (let fileCount = (case files inp of None \<Rightarrow> 0 | Some fs \<Rightarrow> length fs)
      in case route E (prompt inp) (user_id inp) (apiKey inp) fileCount of
           Inl e \<Rightarrow> (Inl e, 0, w)
         | Inr routing \<Rightarrow>
             (case getContext E of
                Inl e \<Rightarrow> (Inl e, 0, w)
              | Inr memory \<Rightarrow>
                  (let ctx = \<lparr>memoryContext = memory,
                              dateTimeContext = js ''[CURRENT DATE & TIME]\<newline>'' @ formatTimestamp E
                                @ js ''\<newline>''\<rparr>;
                       v = \<lparr>finalResponseText = [], metadataPayload = None,
                            currentAction = action routing, currentPrompt = prompt inp,
                            routing_parameters_prompt = parameters_prompt routing\<rparr>;
                       (r, loopCount, v1, w1) = agent_loop E inp ctx 0 v w
                   in (r, loopCount, w1))))"

text \<open>
  \<open>runAutonomousAgent\<close>: the \<open>try\<close> block and the \<open>catch\<close> clause behind it. The result is
  always an \<open>AgentExecutionResult\<close>; with it come the number of handler iterations and
  the world.
\<close>

definition runAutonomousAgent_full ::
  "env \<Rightarrow> AgentInput \<Rightarrow> world \<Rightarrow> AgentExecutionResult \<times> nat \<times> world" where
  "runAutonomousAgent_full E inp w =
     (case try_block E inp w of
        (Inr result, loopCount, w1) \<Rightarrow> (result, loopCount, w1)
      | (Inl error, loopCount, w1) \<Rightarrow>
          (let w2 = log (ConsoleError error) w1;
               errorMessage = getUserFriendlyError E error
           in (\<lparr>messages = [\<lparr>project_id = input_project_id inp, chat_id = input_chat_id inp,
                              sender = js ''ai'', text' = js ''An error occurred: '' @ errorMessage,
                              image_base64 = None, groundingMetadata = None\<rparr>]\<rparr>,
               loopCount, w2)))"

definition runAutonomousAgent :: "env \<Rightarrow> AgentInput \<Rightarrow> AgentExecutionResult" where
  "runAutonomousAgent E inp = fst (runAutonomousAgent_full E inp world0)"

section \<open>Notions used in the statements\<close>

text \<open>
  Every message of a result is from the assistant and belongs to the project and chat of
  the submitted turn.
\<close>

definition ai_reply :: "AgentInput \<Rightarrow> AgentExecutionResult \<Rightarrow> bool" where
  "ai_reply inp r = (\<forall>m \<in> set (messages r). sender m = js ''ai''
      \<and> project_id m = input_project_id inp \<and> chat_id m = input_chat_id inp)"







text \<open>All grounding entries of a list of chunks, in the order of the chunks.\<close>

definition all_grounding :: "chunk list \<Rightarrow> groundingChunk list" where
  "all_grounding cs = concat (map (\<lambda>c. case groundingChunks c of None \<Rightarrow> [] | Some gs \<Rightarrow> gs) cs)"

section \<open>Example turns\<close>

text \<open>
  A turn and its collaborators for the examples: the router answers with the given
  action and parameter, the streaming endpoint answers its calls from the given list,
  the image generator gives the given answer.
\<close>

definition example_input :: AgentInput where
  "example_input =
     \<lparr>prompt = js ''draw a cat'', files = None, apiKey = js ''k'',
      input_project_id = js ''p1'', input_chat_id = js ''c1'', history = [],
      user_id = js ''u1'', preferred_image_model = None, onStreamChunk = True\<rparr>"

definition example_env ::
  "RouterAction \<Rightarrow> jsstring option \<Rightarrow> (js_error + stream) list \<Rightarrow> (js_error + jsstring) \<Rightarrow> env" where
  "example_env a par responses img =
     \<lparr>route = (\<lambda>p u k n. Inr \<lparr>action = a, parameters_prompt = par\<rparr>),
      getContext = Inr (js ''{}''),
      formatTimestamp = js ''now'',
      autonomousInstruction = js ''You are Bubble.'',
      generateContentStream = (\<lambda>req n. if n < length responses then responses ! n
                                         else Inl (new_Error (js ''offline''))),
      generateContent = (\<lambda>req. Inr (Some (js ''{}''))),
      deepResearch = (\<lambda>p. ([], Inr \<lparr>answer = js ''42'', sources = []\<rparr>)),
      generateImage = (\<lambda>p k m. img),
      runCanvasAgent = (\<lambda>i. ([], Inr [Some (js ''done'')])),
      getUserFriendlyError = (\<lambda>e. template (err_message e))\<rparr>"

definition says :: "string \<Rightarrow> js_error + stream" where
  "says s = Inr \<lparr>chunks = [\<lparr>chunk_text = Some (js s), groundingChunks = None\<rparr>], failure = None\<rparr>"

definition example_context :: turn_context where
  "example_context = \<lparr>memoryContext = js ''{}'', dateTimeContext = js ''[CURRENT DATE & TIME]\<newline>now\<newline>''\<rparr>"

definition example_vars :: "RouterAction \<Rightarrow> vars" where
  "example_vars a = \<lparr>finalResponseText = [], metadataPayload = None, currentAction = a,
     currentPrompt = js ''draw a cat'', routing_parameters_prompt = None\<rparr>"

definition server_error :: js_error where
  "server_error = JsError True (Some 500) (Some (js ''boom''))"

text \<open>
  A stream whose second chunk has no text but carries a grounding entry, and whether a
  chunk has text.
\<close>

definition cited :: groundingChunk where
  "cited = GroundingChunk (js ''https://example.org'') (js ''Example'')"

definition textless_grounding :: "js_error + stream" where
  "textless_grounding =
     Inr \<lparr>chunks = [\<lparr>chunk_text = Some (js ''Hi''), groundingChunks = None\<rparr>,
                    \<lparr>chunk_text = None, groundingChunks = Some [cited]\<rparr>],
          failure = None\<rparr>"

definition has_text :: "chunk \<Rightarrow> bool" where
  "has_text c = (case chunk_text c of None \<Rightarrow> False | Some t \<Rightarrow> t \<noteq> [])"

definition carries_grounding :: "chunk \<Rightarrow> bool" where
  "carries_grounding c = (groundingChunks c \<noteq> None)"

definition pushed :: "groundingChunk list option \<Rightarrow> chunk list \<Rightarrow> groundingChunk list option" where
  "pushed payload cs =
     (if list_ex carries_grounding cs
      then Some ((case payload of None \<Rightarrow> [] | Some m \<Rightarrow> m) @ all_grounding cs)
      else payload)"


text \<open>
  The text of the first message the canvas collaborator returns for the current prompt,
  empty when there is none.
\<close>

definition canvas_text :: "env \<Rightarrow> AgentInput \<Rightarrow> vars \<Rightarrow> jsstring" where
  "canvas_text E inp v =
     (case snd (runCanvasAgent E (inp\<lparr>prompt := currentPrompt v\<rparr>)) of
        Inr (Some t # rest) \<Rightarrow> t
      | _ \<Rightarrow> [])"

text \<open>
  A turn in which the SIMPLE handler generates a canvas marker, and the variables and
  the world after that first iteration.
\<close>

definition canvas_env :: env where
  "canvas_env = example_env SIMPLE None [says ''<CANVAS>x</CANVAS>''] (Inr [])"

definition canvas_vars :: vars where
  "canvas_vars =
     \<lparr>finalResponseText = js ''<CANVAS>x</CANVAS>'', metadataPayload = None, currentAction = CANVAS,
      currentPrompt = js ''x'', routing_parameters_prompt = None\<rparr>"

definition canvas_world :: world where
  "canvas_world = \<lparr>calls = 1, trace = [Attempt, Sink (Text (js ''<CANVAS>x</CANVAS>''))]\<rparr>"

section \<open>Notions for the clean-up of well-nested texts\<close>

text \<open>
  Scanning a text for angle brackets: \<open>pending\<close> says that a \<open><\<close> was read and no \<open>>\<close>
  since. A text is unnested when no \<open><\<close> is read while another one is pending, that is,
  when between any two \<open><\<close> there is a \<open>>\<close>.
\<close>

fun angles :: "bool \<Rightarrow> jsstring \<Rightarrow> bool" where
  "angles pending [] = True"
| "angles pending (c # cs) =
     (if c = 0x3C then \<not> pending \<and> angles True cs
      else if c = 0x3E then angles False cs
      else angles pending cs)"

definition unnested :: "jsstring \<Rightarrow> bool" where
  "unnested s = angles False s"

text \<open>
  What a global replacement by the empty string does, as a relation between the text and
  the result: from the left, a position where the pattern does not match is kept, and a
  match is dropped as a block.
\<close>

inductive dels :: "(jsstring \<Rightarrow> nat option) \<Rightarrow> jsstring \<Rightarrow> jsstring \<Rightarrow> bool" for len where
  dels_Nil: "dels len [] []"
| dels_keep: "len (c # x) = None \<Longrightarrow> dels len x y \<Longrightarrow> dels len (c # x) (c # y)"
| dels_drop: "len (b @ x) = Some (length b) \<Longrightarrow> b \<noteq> [] \<Longrightarrow> dels len x y \<Longrightarrow> dels len (b @ x) y"

text \<open>A pattern whose matches are not empty, lie inside the text and start with \<open><\<close>.\<close>

definition tag_len :: "(jsstring \<Rightarrow> nat option) \<Rightarrow> bool" where
  "tag_len len = (\<forall>z n. len z = Some n \<longrightarrow> 0 < n \<and> n \<le> length z \<and> z \<noteq> [] \<and> hd z = 0x3C)"

text \<open>
  A piece of text of the shape of a tag, and a tag whose inner characters stay different
  from the angle brackets in any letter case.
\<close>

definition tag_shaped :: "jsstring \<Rightarrow> bool" where
  "tag_shaped w = (\<exists>b. w = 0x3C # b @ [0x3E] \<and> 0x3C \<notin> set b \<and> 0x3E \<notin> set b)"

definition good_tag :: "jsstring \<Rightarrow> bool" where
  "good_tag tg = (\<exists>b. tg = 0x3C # b @ [0x3E]
      \<and> (\<forall>c \<in> set b. ascii_upper c \<noteq> 0x3C \<and> ascii_upper c \<noteq> 0x3E))"

text \<open>A paired block of a marker stands somewhere in the text.\<close>

definition has_pair :: "string \<Rightarrow> jsstring \<Rightarrow> bool" where
  "has_pair t y = (\<exists>z \<in> set (suffixes y). paired_block_len t z \<noteq> None)"

text \<open>
  How far a text is cleaned: it is unnested, it holds no paired block of the markers in
  \<open>P\<close> and no opening tag of the markers in \<open>O\<close>.
\<close>

definition settled :: "string set \<Rightarrow> string set \<Rightarrow> jsstring \<Rightarrow> bool" where
  "settled P O' x = (angles False x \<and> (\<forall>t \<in> P. \<not> has_pair t x)
      \<and> (\<forall>t \<in> O'. \<not> ci_includes x (open_tag t)))"

section \<open>Properties of the retrying stream client\<close>

lemma sleeps_log [simp]: "sleeps (log e w) = sleeps w @ (case e of Sleep d \<Rightarrow> [d] | _ \<Rightarrow> [])"
  by (simp add: sleeps_def log_def)

lemma attempts_log [simp]: "attempts (log e w) = attempts w + (if e = Attempt then 1 else 0)"
  by (simp add: attempts_def log_def)

lemma calls_log [simp]: "calls (log e w) = calls w"
  by (simp add: log_def)

lemma sleeps_calls_update [simp]: "sleeps (w\<lparr>calls := n\<rparr>) = sleeps w"
  by (simp add: sleeps_def)

lemma attempts_calls_update [simp]: "attempts (w\<lparr>calls := n\<rparr>) = attempts w"
  by (simp add: attempts_def)

lemma quiet_apply:
  "quiet onRetry \<Longrightarrow> w' = (case onRetry of None \<Rightarrow> w | Some f \<Rightarrow> f m w)
     \<Longrightarrow> calls w' = calls w \<and> sleeps w' = sleeps w \<and> attempts w' = attempts w"
  by (auto simp: quiet_def split: option.splits)

lemma always_quota_cases:
  "always_quota upstream params \<Longrightarrow> \<exists>e. upstream params n = Inl e \<and> isQuotaError e"
  unfolding always_quota_def
  by (erule_tac x = n in allE) (auto split: sum.splits)

lemma upto_first: "(a::int) < b \<Longrightarrow> [a..b - 1] = a # [a + 1..b - 1]"
  by (simp add: upto_rec1)

lemma retry_loop_all_quota:
  "always_quota upstream params \<Longrightarrow> quiet onRetry \<Longrightarrow> attempt \<le> retries \<Longrightarrow>
     retry_loop upstream params retries onRetry attempt w = (r, w') \<Longrightarrow>
       r = upstream params (calls w + nat (retries - attempt))
     \<and> calls w' = calls w + nat (retries - attempt) + 1
     \<and> attempts w' = attempts w + nat (retries - attempt) + 1
     \<and> sleeps w' = sleeps w @ map retry_delay [attempt..retries - 1]"
proof (induction upstream params retries onRetry attempt w rule: retry_loop.induct)
  case (1 upstream params retries onRetry attempt w)
  obtain e where e: "upstream params (calls w) = Inl e" "isQuotaError e"
    using always_quota_cases [OF "1.prems"(1)] by blast
  define w1 where "w1 = log Attempt (w\<lparr>calls := calls w + 1\<rparr>)"
  show ?case
  proof (cases "attempt < retries")
    case False
    with "1.prems"(3) have eq: "attempt = retries" by simp
    have "retry_loop upstream params retries onRetry attempt w = (Inl e, w1)"
      by (subst retry_loop.simps) (simp add: e eq w1_def)
    with "1.prems"(4) have "r = Inl e" "w' = w1" by simp_all
    then show ?thesis by (simp add: e eq w1_def)
  next
    case True
    define delay where "delay = retry_delay attempt"
    define w2 where "w2 = log (ConsoleWarn (warn_message delay)) w1"
    define w3 where "w3 = (case onRetry of None \<Rightarrow> w2 | Some f \<Rightarrow> f (retry_message delay) w2)"
    define w4 where "w4 = log (Sleep delay) w3"
    have q3: "calls w3 = calls w2 \<and> sleeps w3 = sleeps w2 \<and> attempts w3 = attempts w2"
      using quiet_apply [OF "1.prems"(2) w3_def] .
    have step: "retry_loop upstream params retries onRetry attempt w
                = retry_loop upstream params retries onRetry (attempt + 1) w4"
      by (subst retry_loop.simps, cases onRetry)
         (simp_all add: e True "1.prems"(3) w1_def w2_def w3_def w4_def delay_def Let_def)
    have IH: "r = upstream params (calls w4 + nat (retries - (attempt + 1)))
       \<and> calls w' = calls w4 + nat (retries - (attempt + 1)) + 1
       \<and> attempts w' = attempts w4 + nat (retries - (attempt + 1)) + 1
       \<and> sleeps w' = sleeps w4 @ map retry_delay [attempt + 1..retries - 1]"
    proof (rule "1.IH" [OF "1.prems"(3) w1_def e(1) _ delay_def w2_def w3_def w4_def
                         "1.prems"(1) "1.prems"(2)])
      show "isQuotaError e \<and> attempt < retries" using e True by simp
      show "attempt + 1 \<le> retries" using True by simp
      show "retry_loop upstream params retries onRetry (attempt + 1) w4 = (r, w')"
        using step "1.prems"(4) by simp
    qed
    have c4: "calls w4 = calls w + 1" "attempts w4 = attempts w + 1"
             "sleeps w4 = sleeps w @ [retry_delay attempt]"
      using q3 by (simp_all add: w4_def w2_def w1_def delay_def)
    have n: "nat (retries - attempt) = nat (retries - (attempt + 1)) + 1"
      using True by simp
    show ?thesis
      using IH c4 n upto_first [OF True] by simp
  qed
qed

lemma retry_delay_strict: "0 \<le> a \<Longrightarrow> a < b \<Longrightarrow> retry_delay a < retry_delay b"
  by (simp add: retry_delay_def)

lemma retry_delays_increasing: "0 \<le> a \<Longrightarrow> sorted_wrt (<) (map retry_delay [a..b])"
proof -
  assume a: "0 \<le> a"
  have "sorted_wrt (\<lambda>x y. retry_delay x < retry_delay y) [a..b]"
  proof (rule sorted_wrt_mono_rel [of _ "(<)"])
    show "sorted_wrt (<) [a..b]" by (simp add: sorted_wrt_upto)
  next
    fix x y assume "x \<in> set [a..b]" "y \<in> set [a..b]" "x < y"
    then show "retry_delay x < retry_delay y" using a by (intro retry_delay_strict) auto
  qed
  then show ?thesis by (simp add: sorted_wrt_map)
qed

text \<open>
  C1 (amended). If every attempt fails with a quota-class error and the ceiling is not
  negative, the wrapper makes exactly \<open>retries + 1\<close> attempts, sleeps
  \<open>2 ^ attempt * 2000 + 1000\<close> milliseconds before each retry, these delays increase
  strictly, and the failure it raises is the quota-class error of the last attempt,
  unchanged.
\<close>

theorem retry_exhausted_rethrows_last_quota_error:
  assumes "always_quota upstream params" and "quiet onRetry" and "0 \<le> retries"
    and "generateContentStreamWithRetry upstream params retries onRetry w = (r, w')"
  shows "attempts w' = attempts w + (nat retries + 1)
       \<and> sleeps w' = sleeps w @ map (\<lambda>attempt. 2 ^ nat attempt * 2000 + 1000) [0..retries - 1]
       \<and> sorted_wrt (<) (map (\<lambda>attempt. 2 ^ nat attempt * 2000 + (1000::int)) [0..retries - 1])
       \<and> (\<exists>e. r = Inl e \<and> isQuotaError e \<and> upstream params (calls w + nat retries) = Inl e)"
proof -
  have m: "(\<lambda>attempt. 2 ^ nat attempt * 2000 + 1000) = retry_delay"
    by (rule ext) (simp add: retry_delay_def)
  have L: "r = upstream params (calls w + nat (retries - 0))
     \<and> calls w' = calls w + nat (retries - 0) + 1
     \<and> attempts w' = attempts w + nat (retries - 0) + 1
     \<and> sleeps w' = sleeps w @ map retry_delay [0..retries - 1]"
    using assms retry_loop_all_quota [of upstream params onRetry 0 retries w r w']
    by (simp add: generateContentStreamWithRetry_def)
  obtain e where e: "upstream params (calls w + nat retries) = Inl e" "isQuotaError e"
    using always_quota_cases [OF assms(1)] by blast
  show ?thesis
    using L e retry_delays_increasing [of 0 "retries - 1"] by (simp add: m)
qed

lemma always_quota_always429: "always_quota always429 ()"
  by (simp add: always_quota_def always429_def quota429_def isQuotaError_def)

lemma quiet_None: "quiet None"
  by (simp add: quiet_def)

theorem retry_exhausted_rethrows_last_quota_error_witness:
  "always_quota always429 () \<and> quiet None \<and> (0::int) \<le> 3
   \<and> attempts (snd (generateContentStreamWithRetry always429 () 3 None world0)) = 4
   \<and> sleeps (snd (generateContentStreamWithRetry always429 () 3 None world0)) = [3000, 5000, 9000]
   \<and> fst (generateContentStreamWithRetry always429 () 3 None world0) = Inl quota429"
proof -
  have u: "[0..(2::int)] = [0, 1, 2]" by (simp add: upto_rec1)
  have w0: "attempts world0 = 0" "sleeps world0 = []" "calls world0 = 0"
    by (simp_all add: attempts_def sleeps_def world0_def)
  show ?thesis
    using retry_exhausted_rethrows_last_quota_error
            [OF always_quota_always429 quiet_None, of 3 world0
               "fst (generateContentStreamWithRetry always429 () 3 None world0)"
               "snd (generateContentStreamWithRetry always429 () 3 None world0)"]
    by (simp add: always_quota_always429 quiet_None u w0 always429_def)
qed

text \<open>
  C1 as stated fails: with the default ceiling 3 and an endpoint that always answers 429,
  the wrapper raises that 429 error, not \<open>Error("Max retries exceeded")\<close>.
\<close>

theorem retry_exhausted_not_MaxRetriesExceeded:
  "always_quota always429 ()
   \<and> fst (generateContentStreamWithRetry always429 () 3 None world0) \<noteq> Inl MaxRetriesExceeded"
proof -
  have "fst (generateContentStreamWithRetry always429 () 3 None world0) = Inl quota429"
    by (simp add: generateContentStreamWithRetry_def retry_loop.simps always429_def
          quota429_def isQuotaError_def Let_def)
  moreover have "quota429 \<noteq> MaxRetriesExceeded"
    by (simp add: quota429_def MaxRetriesExceeded_def new_Error_def)
  ultimately show ?thesis by (simp add: always_quota_always429)
qed

section \<open>Properties of display-time extraction\<close>

lemma dropWhile_fixed: "(xs = [] \<or> \<not> P (hd xs)) \<Longrightarrow> dropWhile P xs = xs"
  by (cases xs) auto

lemma js_trim_idem: "js_trim (js_trim s) = js_trim s"
proof -
  define a where "a = dropWhile is_space s"
  define b where "b = dropWhile is_space (rev a)"
  have a_hd: "a = [] \<or> \<not> is_space (hd a)"
    unfolding a_def using hd_dropWhile [of is_space s] by blast
  have b_hd: "b = [] \<or> \<not> is_space (hd b)"
    unfolding b_def using hd_dropWhile [of is_space "rev a"] by blast
  have "suffix b (rev a)" unfolding b_def by (rule suffix_dropWhile)
  then obtain z where z: "rev a = z @ b" by (auto simp: suffix_def)
  then have a_eq: "a = rev b @ rev z" by (metis rev_append rev_rev_ident)
  have rb_hd: "rev b = [] \<or> \<not> is_space (hd (rev b))"
  proof (cases "rev b = []")
    case True then show ?thesis by simp
  next
    case False
    then have "hd a = hd (rev b)" using a_eq by simp
    moreover have "a \<noteq> []" using a_eq False by simp
    ultimately show ?thesis using a_hd by simp
  qed
  have 1: "dropWhile is_space (rev b) = rev b" by (rule dropWhile_fixed [of "rev b" is_space, OF rb_hd])
  have 2: "dropWhile is_space b = b" by (rule dropWhile_fixed [of b is_space, OF b_hd])
  have "js_trim s = rev b" by (simp add: js_trim_def a_def b_def)
  moreover have "js_trim (rev b) = rev b" by (simp add: js_trim_def 1 2)
  ultimately show ?thesis by simp
qed

lemma delete_from_no_match:
  "\<not> ci_includes s p \<Longrightarrow> (\<And>u. \<not> ci_prefix p u \<Longrightarrow> len u = None) \<Longrightarrow> delete_from len 0 s = s"
  by (induction s) auto

lemma delete_paired_none:
  "\<not> ci_includes s (open_tag t) \<Longrightarrow> delete_all (paired_block_len t) s = s"
  unfolding delete_all_def
  by (rule delete_from_no_match [where p = "open_tag t"]) (simp_all add: paired_block_len_def)

lemma delete_open_none:
  "\<not> ci_includes s (open_tag t) \<Longrightarrow> delete_all (open_block_len t) s = s"
  unfolding delete_all_def
  by (rule delete_from_no_match [where p = "open_tag t"]) (simp_all add: open_block_len_def)

lemma clean_text_Nil: "clean_text [] = []"
  by (simp add: clean_text_def delete_all_def js_trim_def)

lemma clean_parse: "clean (parseMessageContent s) = clean_text s"
  by (simp add: parseMessageContent_def Let_def clean_text_Nil)

lemma js_trim_clean_text: "js_trim (clean_text s) = clean_text s"
  unfolding clean_text_def by (rule js_trim_idem)

subsection \<open>Deletion on unnested texts\<close>

lemma has_pair_suffix:
  "has_pair t y \<longleftrightarrow> (\<exists>z. suffix z y \<and> paired_block_len t z \<noteq> None)"
  by (auto simp: has_pair_def in_set_suffixes)

inductive_cases dels_ConsE: "dels len x (a # y)"

lemma delete_from_skip: "delete_from len k cs = delete_from len 0 (drop k cs)"
proof (induction cs arbitrary: k)
  case Nil
  show ?case by (cases k) simp_all
next
  case (Cons c cs)
  show ?case
  proof (cases k)
    case 0
    then show ?thesis by simp
  next
    case (Suc j)
    then show ?thesis using Cons.IH [of j] by simp
  qed
qed

lemma dels_delete_all: "tag_len len \<Longrightarrow> dels len x (delete_all len x)"
proof (induction "length x" arbitrary: x rule: less_induct)
  case less
  show ?case
  proof (cases x)
    case Nil
    then show ?thesis by (simp add: delete_all_def dels_Nil)
  next
    case (Cons c cs)
    show ?thesis
    proof (cases "len (c # cs)")
      case None
      have "dels len cs (delete_all len cs)"
        using less.hyps [of cs] less.prems Cons by simp
      then show ?thesis
        using None Cons by (simp add: delete_all_def dels_keep)
    next
      case (Some n)
      have n: "0 < n" "n \<le> length (c # cs)"
        using less.prems [unfolded tag_len_def, rule_format, OF Some] by simp_all
      have r: "delete_all len (c # cs) = delete_all len (drop n (c # cs))"
        using Some n delete_from_skip [of len "n - 1" cs]
        by (cases n) (simp_all add: delete_all_def)
      have sh: "length (drop n (c # cs)) < length x" using n Cons by simp
      have d: "dels len (drop n (c # cs)) (delete_all len (drop n (c # cs)))"
        by (rule less.hyps [OF sh less.prems])
      have l: "len (take n (c # cs) @ drop n (c # cs)) = Some (length (take n (c # cs)))"
        using Some n by simp
      have ne: "take n (c # cs) \<noteq> []" using n by (cases n) simp_all
      have "dels len (take n (c # cs) @ drop n (c # cs)) (delete_all len (drop n (c # cs)))"
        by (rule dels_drop [OF l ne d])
      then show ?thesis using r Cons by simp
    qed
  qed
qed

lemma angles_weaken: "angles True x \<Longrightarrow> angles False x"
  by (induction x) (auto split: if_splits)

lemma angles_suffix: "angles st (p @ x) \<Longrightarrow> angles False x"
proof (induction p arbitrary: st)
  case Nil
  then show ?case by (cases st) (simp_all add: angles_weaken)
next
  case (Cons c p)
  then show ?case by (auto split: if_splits)
qed

lemma angles_dels: "dels len x y \<Longrightarrow> tag_len len \<Longrightarrow> angles st x \<Longrightarrow> angles st y"
proof (induction arbitrary: st rule: dels.induct)
  case dels_Nil
  then show ?case by simp
next
  case (dels_keep c x y)
  then show ?case by (auto split: if_splits)
next
  case (dels_drop b x y)
  from dels_drop.prems(1) [unfolded tag_len_def, rule_format, OF dels_drop.hyps(1)]
  have h: "hd (b @ x) = 0x3C" by simp
  with dels_drop.hyps(2) obtain b' where b: "b = 0x3C # b'" by (cases b) auto
  from dels_drop.prems(2) b have st: "\<not> st" and a: "angles True (b' @ x)" by simp_all
  from a have "angles False x" by (rule angles_suffix)
  then have "angles False y" by (rule dels_drop.IH [OF dels_drop.prems(1)])
  with st show ?case by simp
qed

lemma drop_starts_with_angle:
  "tag_len len \<Longrightarrow> len (b @ x) = Some (length b) \<Longrightarrow> b \<noteq> [] \<Longrightarrow> \<exists>b'. b = 0x3C # b'"
proof -
  assume t: "tag_len len" and l: "len (b @ x) = Some (length b)" and b: "b \<noteq> []"
  from t [unfolded tag_len_def, rule_format, OF l] have "hd (b @ x) = 0x3C" by simp
  with b show ?thesis by (cases b) auto
qed

lemma inside_tag:
  "dels len x (b @ 0x3E # v) \<Longrightarrow> tag_len len \<Longrightarrow> angles True x \<Longrightarrow> 0x3C \<notin> set b \<Longrightarrow> 0x3E \<notin> set b \<Longrightarrow>
     \<exists>v'. x = b @ 0x3E # v' \<and> dels len v' v \<and> angles False v'"
proof (induction b arbitrary: x)
  case Nil
  from Nil.prems(1) have "dels len x (0x3E # v)" by simp
  then show ?case
  proof (rule dels_ConsE)
    fix x1 assume "x = 0x3E # x1" "len (0x3E # x1) = None" "dels len x1 v"
    with Nil.prems(3) show ?thesis by auto
  next
    fix b0 x1 assume x: "x = b0 @ x1" and l: "len (b0 @ x1) = Some (length b0)" and b0: "b0 \<noteq> []"
    from drop_starts_with_angle [OF Nil.prems(2) l b0] x Nil.prems(3) show ?thesis by auto
  qed
next
  case (Cons a b)
  from Cons.prems(1) have "dels len x (a # (b @ 0x3E # v))" by simp
  then show ?case
  proof (rule dels_ConsE)
    fix x1 assume x: "x = a # x1" and d: "dels len x1 (b @ 0x3E # v)"
    from Cons.prems(3,4,5) x have "angles True x1" by auto
    from Cons.IH [OF d Cons.prems(2) this] Cons.prems(4,5) x show ?thesis by auto
  next
    fix b0 x1 assume x: "x = b0 @ x1" and l: "len (b0 @ x1) = Some (length b0)" and b0: "b0 \<noteq> []"
    from drop_starts_with_angle [OF Cons.prems(2) l b0] x Cons.prems(3) show ?thesis by auto
  qed
qed

lemma tag_occurrence_survives:
  "dels len x y \<Longrightarrow> tag_len len \<Longrightarrow> angles False x \<Longrightarrow> y = u @ w @ v \<Longrightarrow> tag_shaped w \<Longrightarrow>
     \<exists>u' v'. x = u' @ w @ v' \<and> dels len v' v \<and> angles False v' \<and> len (w @ v') = None"
proof (induction arbitrary: u rule: dels.induct)
  case dels_Nil
  then show ?case by (auto simp: tag_shaped_def)
next
  case (dels_keep c x y)
  show ?case
  proof (cases u)
    case Nil
    from dels_keep.prems(4) obtain b where w: "w = 0x3C # b @ [0x3E]" and b: "0x3C \<notin> set b" "0x3E \<notin> set b"
      by (auto simp: tag_shaped_def)
    from dels_keep.prems(3) Nil w have c: "c = 0x3C" and y: "y = b @ 0x3E # v" by simp_all
    from dels_keep.prems(2) c have "angles True x" by simp
    from inside_tag [OF dels_keep.hyps(2) [unfolded y] dels_keep.prems(1) this b]
    obtain v' where v': "x = b @ 0x3E # v'" "dels len v' v" "angles False v'" by blast
    have "c # x = [] @ w @ v'" using c w v'(1) by simp
    moreover have "len (w @ v') = None" using dels_keep.hyps(1) c w v'(1) by simp
    ultimately show ?thesis using v'(2,3) by blast
  next
    case (Cons a u1)
    with dels_keep.prems(3) have a: "a = c" and y: "y = u1 @ w @ v" by simp_all
    have "angles False x" using angles_suffix [of False "[c]" x] dels_keep.prems(2) by simp
    from dels_keep.IH [OF dels_keep.prems(1) this y dels_keep.prems(4)]
    obtain u' v' where "x = u' @ w @ v'" "dels len v' v" "angles False v'" "len (w @ v') = None"
      by blast
    then have "c # x = (c # u') @ w @ v'" by simp
    then show ?thesis using \<open>dels len v' v\<close> \<open>angles False v'\<close> \<open>len (w @ v') = None\<close> by blast
  qed
next
  case (dels_drop b x y)
  have "angles False x" using angles_suffix [of False b x] dels_drop.prems(2) by simp
  from dels_drop.IH [OF dels_drop.prems(1) this dels_drop.prems(3) dels_drop.prems(4)]
  obtain u' v' where "x = u' @ w @ v'" "dels len v' v" "angles False v'" "len (w @ v') = None"
    by blast
  then have "b @ x = (b @ u') @ w @ v'" by simp
  then show ?case using \<open>dels len v' v\<close> \<open>angles False v'\<close> \<open>len (w @ v') = None\<close> by blast
qed

lemma upper_angle [simp]:
  "ascii_upper c = 0x3C \<longleftrightarrow> c = 0x3C" "ascii_upper c = 0x3E \<longleftrightarrow> c = 0x3E"
  by (auto simp: ascii_upper_def)

lemma upper_of_angle [simp]: "ascii_upper 0x3C = 0x3C" "ascii_upper 0x3E = 0x3E"
  by (simp_all add: ascii_upper_def)

lemma ci_prefix_iff:
  "ci_prefix p s \<longleftrightarrow> (\<exists>w v. s = w @ v \<and> map ascii_upper w = map ascii_upper p)"
proof
  assume "ci_prefix p s"
  then obtain zs where z: "map ascii_upper s = map ascii_upper p @ zs"
    by (auto simp: ci_prefix_def prefix_def)
  then have "map ascii_upper (take (length p) s) = map ascii_upper p"
    by (metis append_eq_conv_conj length_map take_map)
  then have "s = take (length p) s @ drop (length p) s
      \<and> map ascii_upper (take (length p) s) = map ascii_upper p" by simp
  then show "\<exists>w v. s = w @ v \<and> map ascii_upper w = map ascii_upper p" by blast
next
  assume "\<exists>w v. s = w @ v \<and> map ascii_upper w = map ascii_upper p"
  then show "ci_prefix p s" by (auto simp: ci_prefix_def)
qed

lemma ci_includes_iff:
  "ci_includes s p \<longleftrightarrow> (\<exists>m w v. s = m @ w @ v \<and> map ascii_upper w = map ascii_upper p)"
proof (induction s)
  case Nil
  show ?case by (auto simp: ci_prefix_iff)
next
  case (Cons c cs)
  show ?case
  proof
    assume "ci_includes (c # cs) p"
    then consider "ci_prefix p (c # cs)" | "ci_includes cs p" by auto
    then show "\<exists>m w v. c # cs = m @ w @ v \<and> map ascii_upper w = map ascii_upper p"
    proof cases
      case 1
      then obtain w v where "c # cs = [] @ w @ v" "map ascii_upper w = map ascii_upper p"
        by (auto simp: ci_prefix_iff)
      then show ?thesis by blast
    next
      case 2
      with Cons.IH obtain m w v where "cs = m @ w @ v" "map ascii_upper w = map ascii_upper p"
        by blast
      then have "c # cs = (c # m) @ w @ v" by simp
      with \<open>map ascii_upper w = map ascii_upper p\<close> show ?thesis by blast
    qed
  next
    assume "\<exists>m w v. c # cs = m @ w @ v \<and> map ascii_upper w = map ascii_upper p"
    then obtain m w v where e: "c # cs = m @ w @ v" and u: "map ascii_upper w = map ascii_upper p"
      by blast
    show "ci_includes (c # cs) p"
    proof (cases m)
      case Nil
      with e u have "ci_prefix p (c # cs)" by (auto simp: ci_prefix_iff)
      then show ?thesis by simp
    next
      case (Cons a m')
      with e have "cs = m' @ w @ v" by simp
      with u Cons.IH have "ci_includes cs p" by blast
      then show ?thesis by simp
    qed
  qed
qed

lemma good_tag_shape:
  "good_tag tg \<Longrightarrow> map ascii_upper w = map ascii_upper tg \<Longrightarrow> tag_shaped w"
proof -
  assume g: "good_tag tg" and m: "map ascii_upper w = map ascii_upper tg"
  from g obtain b where tg: "tg = 0x3C # b @ [0x3E]"
    and b: "\<forall>c \<in> set b. ascii_upper c \<noteq> 0x3C \<and> ascii_upper c \<noteq> 0x3E"
    by (auto simp: good_tag_def)
  from m tg obtain c0 w1 where w: "w = c0 # w1" and c0: "ascii_upper c0 = 0x3C"
    and m1: "map ascii_upper w1 = map ascii_upper b @ [0x3E]"
    by (cases w) auto
  from m1 obtain b' l where w1: "w1 = b' @ l" and mb: "map ascii_upper b' = map ascii_upper b"
    and ml: "map ascii_upper l = [0x3E]"
    by (auto simp: map_eq_append_conv)
  from ml have l: "l = [0x3E]" by (cases l) auto
  have "set (map ascii_upper b') = set (map ascii_upper b)" using mb by simp
  then have "\<forall>c \<in> set b'. ascii_upper c \<noteq> 0x3C \<and> ascii_upper c \<noteq> 0x3E"
    using b by (metis image_eqI list.set_map imageE)
  then have "0x3C \<notin> set b'" "0x3E \<notin> set b'" by (auto simp: ascii_upper_def)
  with w c0 w1 l show ?thesis by (auto simp: tag_shaped_def)
qed

lemma good_tag_of_name:
  "\<forall>c \<in> set t. ascii_upper (of_char c) \<noteq> 0x3C \<and> ascii_upper (of_char c) \<noteq> 0x3E \<Longrightarrow>
     good_tag (open_tag t) \<and> good_tag (close_tag t)"
proof -
  assume a: "\<forall>c \<in> set t. ascii_upper (of_char c) \<noteq> 0x3C \<and> ascii_upper (of_char c) \<noteq> 0x3E"
  have o: "open_tag t = 0x3C # map of_char t @ [0x3E]" by (simp add: open_tag_def js_def)
  have c: "close_tag t = 0x3C # (0x2F # map of_char t) @ [0x3E]" by (simp add: close_tag_def js_def)
  have "good_tag (open_tag t)"
    unfolding good_tag_def using a o by (intro exI [of _ "map of_char t"]) auto
  moreover have "good_tag (close_tag t)"
    unfolding good_tag_def using a c
    by (intro exI [of _ "0x2F # map of_char t"]) (auto simp: ascii_upper_def)
  ultimately show ?thesis by simp
qed

lemma marker_tags_good:
  "t \<in> set marker_names \<Longrightarrow> good_tag (open_tag t) \<and> good_tag (close_tag t)"
  by (rule good_tag_of_name) (auto simp: marker_names_def ascii_upper_def)

lemma lazy_any_None: "lazy_any cls r = None \<longleftrightarrow> \<not> ci_includes r cls"
  by (induction r) auto

lemma lazy_any_bound: "lazy_any cls r = Some k \<Longrightarrow> cls \<noteq> [] \<Longrightarrow> k + length cls \<le> length r"
proof (induction r arbitrary: k)
  case Nil
  then show ?case by (auto simp: ci_prefix_def split: if_splits)
next
  case (Cons c cs)
  show ?case
  proof (cases "ci_prefix cls (c # cs)")
    case True
    then have "length (map ascii_upper cls) \<le> length (map ascii_upper (c # cs))"
      unfolding ci_prefix_def by (rule prefix_length_le)
    with True Cons.prems show ?thesis by simp
  next
    case False
    with Cons.prems obtain j where "lazy_any cls cs = Some j" "k = Suc j" by auto
    with Cons.IH [of j] Cons.prems(2) show ?thesis by simp
  qed
qed

lemma paired_block_len_None:
  "paired_block_len t z = None \<longleftrightarrow>
     \<not> (ci_prefix (open_tag t) z \<and> ci_includes (drop (length (open_tag t)) z) (close_tag t))"
  by (simp add: paired_block_len_def lazy_any_None)

lemma ci_prefix_good_tag:
  "good_tag tg \<Longrightarrow> ci_prefix tg z \<Longrightarrow> z \<noteq> [] \<and> hd z = 0x3C \<and> length tg \<le> length z"
proof -
  assume g: "good_tag tg" and p: "ci_prefix tg z"
  from p obtain w v where z: "z = w @ v" and m: "map ascii_upper w = map ascii_upper tg"
    by (auto simp: ci_prefix_iff)
  from good_tag_shape [OF g m] obtain b where "w = 0x3C # b @ [0x3E]" by (auto simp: tag_shaped_def)
  moreover have "length w = length tg" using m by (metis length_map)
  ultimately show ?thesis using z by simp
qed

lemma tag_len_paired: "t \<in> set marker_names \<Longrightarrow> tag_len (paired_block_len t)"
proof -
  assume t: "t \<in> set marker_names"
  have g: "good_tag (open_tag t)" using marker_tags_good [OF t] by simp
  have c: "close_tag t \<noteq> []" by (simp add: close_tag_def js_def)
  show ?thesis
    unfolding tag_len_def
  proof (intro allI impI)
    fix z n assume l: "paired_block_len t z = Some n"
    then have p: "ci_prefix (open_tag t) z" by (auto simp: paired_block_len_def split: if_splits)
    from l p obtain k where k: "lazy_any (close_tag t) (drop (length (open_tag t)) z) = Some k"
      and n: "n = length (open_tag t) + k + length (close_tag t)"
      by (auto simp: paired_block_len_def)
    from ci_prefix_good_tag [OF g p] have z: "z \<noteq> []" "hd z = 0x3C" "length (open_tag t) \<le> length z"
      by simp_all
    from lazy_any_bound [OF k c] z(3) have "n \<le> length z" using n by simp
    moreover have "0 < n" using n c by simp
    ultimately show "0 < n \<and> n \<le> length z \<and> z \<noteq> [] \<and> hd z = 0x3C" using z by simp
  qed
qed

lemma tag_len_open: "t \<in> set marker_names \<Longrightarrow> tag_len (open_block_len t)"
proof -
  assume t: "t \<in> set marker_names"
  have g: "good_tag (open_tag t)" using marker_tags_good [OF t] by simp
  show ?thesis
    unfolding tag_len_def
  proof (intro allI impI)
    fix z n assume l: "open_block_len t z = Some n"
    then have p: "ci_prefix (open_tag t) z" and n: "n = length z"
      by (auto simp: open_block_len_def split: if_splits)
    from ci_prefix_good_tag [OF g p] n show "0 < n \<and> n \<le> length z \<and> z \<noteq> [] \<and> hd z = 0x3C"
      by simp
  qed
qed

lemma has_pair_iff:
  "has_pair t y \<longleftrightarrow>
     (\<exists>u wo m wc v. y = u @ wo @ m @ wc @ v
        \<and> map ascii_upper wo = map ascii_upper (open_tag t)
        \<and> map ascii_upper wc = map ascii_upper (close_tag t))"
proof
  assume "has_pair t y"
  then obtain z where s: "suffix z y" and p: "ci_prefix (open_tag t) z"
    and i: "ci_includes (drop (length (open_tag t)) z) (close_tag t)"
    by (auto simp: has_pair_suffix paired_block_len_None)
  from s obtain u where y: "y = u @ z" by (auto simp: suffix_def)
  from p obtain wo r where z: "z = wo @ r" and mo: "map ascii_upper wo = map ascii_upper (open_tag t)"
    by (auto simp: ci_prefix_iff)
  have "length wo = length (open_tag t)" using mo by (metis length_map)
  with z i have "ci_includes r (close_tag t)" by simp
  then obtain m wc v where r: "r = m @ wc @ v" and mc: "map ascii_upper wc = map ascii_upper (close_tag t)"
    by (auto simp: ci_includes_iff)
  from y z r have "y = u @ wo @ m @ wc @ v" by simp
  with mo mc show "\<exists>u wo m wc v. y = u @ wo @ m @ wc @ v
        \<and> map ascii_upper wo = map ascii_upper (open_tag t)
        \<and> map ascii_upper wc = map ascii_upper (close_tag t)" by blast
next
  assume "\<exists>u wo m wc v. y = u @ wo @ m @ wc @ v
        \<and> map ascii_upper wo = map ascii_upper (open_tag t)
        \<and> map ascii_upper wc = map ascii_upper (close_tag t)"
  then obtain u wo m wc v where y: "y = u @ wo @ m @ wc @ v"
    and mo: "map ascii_upper wo = map ascii_upper (open_tag t)"
    and mc: "map ascii_upper wc = map ascii_upper (close_tag t)" by blast
  have l: "length wo = length (open_tag t)" using mo by (metis length_map)
  have "suffix (wo @ m @ wc @ v) y" using y by (simp add: suffix_def)
  moreover have "ci_prefix (open_tag t) (wo @ m @ wc @ v)" using mo by (auto simp: ci_prefix_iff)
  moreover have "ci_includes (drop (length (open_tag t)) (wo @ m @ wc @ v)) (close_tag t)"
    using l mc by (auto simp: ci_includes_iff)
  ultimately show "has_pair t y" by (auto simp: has_pair_suffix paired_block_len_None)
qed

lemma open_survives:
  assumes d: "dels len x y" and l: "tag_len len" and a: "angles False x"
    and g: "good_tag tg" and i: "ci_includes y tg"
  shows "\<exists>u' w v'. x = u' @ w @ v' \<and> map ascii_upper w = map ascii_upper tg \<and> len (w @ v') = None"
proof -
  from i obtain u w v where y: "y = u @ w @ v" and m: "map ascii_upper w = map ascii_upper tg"
    by (auto simp: ci_includes_iff)
  from tag_occurrence_survives [OF d l a y good_tag_shape [OF g m]] m show ?thesis by blast
qed

lemma pair_survives:
  assumes d: "dels len x y" and l: "tag_len len" and a: "angles False x"
    and t: "t \<in> set marker_names" and h: "has_pair t y"
  shows "\<exists>u' wo v'. x = u' @ wo @ v' \<and> map ascii_upper wo = map ascii_upper (open_tag t)
           \<and> ci_includes v' (close_tag t) \<and> len (wo @ v') = None"
proof -
  from h obtain u wo m wc v where y: "y = u @ wo @ (m @ wc @ v)"
    and mo: "map ascii_upper wo = map ascii_upper (open_tag t)"
    and mc: "map ascii_upper wc = map ascii_upper (close_tag t)"
    by (auto simp: has_pair_iff)
  have g: "good_tag (open_tag t)" "good_tag (close_tag t)" using marker_tags_good [OF t] by simp_all
  from tag_occurrence_survives [OF d l a y good_tag_shape [OF g(1) mo]]
  obtain u' v' where x: "x = u' @ wo @ v'" and d': "dels len v' (m @ wc @ v)"
    and a': "angles False v'" and n: "len (wo @ v') = None" by blast
  from tag_occurrence_survives [OF d' l a' refl good_tag_shape [OF g(2) mc]]
  obtain m' v'' where "v' = m' @ wc @ v''" by blast
  with mc have "ci_includes v' (close_tag t)" by (auto simp: ci_includes_iff)
  with x mo n show ?thesis by blast
qed

lemma pair_survives_has_pair:
  assumes "dels len x y" "tag_len len" "angles False x" "t \<in> set marker_names" "has_pair t y"
  shows "has_pair t x"
proof -
  from pair_survives [OF assms]
  obtain u' wo v' where x: "x = u' @ wo @ v'" and mo: "map ascii_upper wo = map ascii_upper (open_tag t)"
    and c: "ci_includes v' (close_tag t)" by blast
  from c obtain m wc v where "v' = m @ wc @ v" "map ascii_upper wc = map ascii_upper (close_tag t)"
    by (auto simp: ci_includes_iff)
  with x mo show ?thesis unfolding has_pair_iff by blast
qed

lemma open_survives_includes:
  assumes "dels len x y" "tag_len len" "angles False x" "good_tag tg" "ci_includes y tg"
  shows "ci_includes x tg"
  using open_survives [OF assms] unfolding ci_includes_iff by blast

lemma paired_pass_leaves_no_pair:
  assumes a: "angles False x" and t: "t \<in> set marker_names"
  shows "\<not> has_pair t (delete_all (paired_block_len t) x)"
proof
  assume h: "has_pair t (delete_all (paired_block_len t) x)"
  have l: "tag_len (paired_block_len t)" by (rule tag_len_paired [OF t])
  from pair_survives [OF dels_delete_all [OF l] l a t h]
  obtain u' wo v' where mo: "map ascii_upper wo = map ascii_upper (open_tag t)"
    and c: "ci_includes v' (close_tag t)" and n: "paired_block_len t (wo @ v') = None" by blast
  have "length wo = length (open_tag t)" using mo by (metis length_map)
  moreover have "ci_prefix (open_tag t) (wo @ v')" using mo by (auto simp: ci_prefix_iff)
  ultimately show False using n c by (simp add: paired_block_len_None)
qed

lemma open_pass_leaves_no_open:
  assumes a: "angles False x" and t: "t \<in> set marker_names"
  shows "\<not> ci_includes (delete_all (open_block_len t) x) (open_tag t)"
proof
  assume i: "ci_includes (delete_all (open_block_len t) x) (open_tag t)"
  have l: "tag_len (open_block_len t)" by (rule tag_len_open [OF t])
  have g: "good_tag (open_tag t)" using marker_tags_good [OF t] by simp
  from open_survives [OF dels_delete_all [OF l] l a g i]
  obtain w v' where mo: "map ascii_upper w = map ascii_upper (open_tag t)"
    and n: "open_block_len t (w @ v') = None" by blast
  have "ci_prefix (open_tag t) (w @ v')" using mo by (auto simp: ci_prefix_iff)
  with n show False by (simp add: open_block_len_def)
qed

lemma settled_dels:
  assumes s: "settled P O' x" and d: "dels len x y" and l: "tag_len len"
    and m: "P \<subseteq> set marker_names" "O' \<subseteq> set marker_names"
  shows "settled P O' y"
proof -
  from s have a: "angles False x" by (simp add: settled_def)
  have "angles False y" by (rule angles_dels [OF d l a])
  moreover have "\<forall>t \<in> P. \<not> has_pair t y"
    using s m(1) pair_survives_has_pair [OF d l a] by (auto simp: settled_def)
  moreover have "\<forall>t \<in> O'. \<not> ci_includes y (open_tag t)"
  proof
    fix t assume t: "t \<in> O'"
    then have g: "good_tag (open_tag t)" using m(2) marker_tags_good by blast
    from s t have "\<not> ci_includes x (open_tag t)" by (simp add: settled_def)
    then show "\<not> ci_includes y (open_tag t)" using open_survives_includes [OF d l a g] by blast
  qed
  ultimately show ?thesis by (simp add: settled_def)
qed

lemma settled_paired_pass:
  assumes s: "settled P O' x" and t: "t \<in> set marker_names"
    and m: "P \<subseteq> set marker_names" "O' \<subseteq> set marker_names"
  shows "settled (insert t P) O' (delete_all (paired_block_len t) x)"
proof -
  have l: "tag_len (paired_block_len t)" by (rule tag_len_paired [OF t])
  from s have a: "angles False x" by (simp add: settled_def)
  from settled_dels [OF s dels_delete_all [OF l] l m] paired_pass_leaves_no_pair [OF a t]
  show ?thesis by (simp add: settled_def)
qed

lemma settled_open_pass:
  assumes s: "settled P O' x" and t: "t \<in> set marker_names"
    and m: "P \<subseteq> set marker_names" "O' \<subseteq> set marker_names"
  shows "settled P (insert t O') (delete_all (open_block_len t) x)"
proof -
  have l: "tag_len (open_block_len t)" by (rule tag_len_open [OF t])
  from s have a: "angles False x" by (simp add: settled_def)
  from settled_dels [OF s dels_delete_all [OF l] l m] open_pass_leaves_no_open [OF a t]
  show ?thesis by (simp add: settled_def)
qed

lemma js_trim_infix: "\<exists>p q. x = p @ js_trim x @ q"
proof -
  define a where "a = dropWhile is_space x"
  define b where "b = dropWhile is_space (rev a)"
  have x: "x = takeWhile is_space x @ a" by (simp add: a_def)
  have "rev a = takeWhile is_space (rev a) @ b" by (simp add: b_def)
  then have "a = rev b @ rev (takeWhile is_space (rev a))"
    by (metis rev_append rev_rev_ident)
  moreover have "js_trim x = rev b" by (simp add: js_trim_def a_def b_def)
  ultimately have "x = takeWhile is_space x @ js_trim x @ rev (takeWhile is_space (rev a))"
    using x by simp
  then show ?thesis by blast
qed

lemma trim_keeps_no_pair: "\<not> has_pair t x \<Longrightarrow> \<not> has_pair t (js_trim x)"
proof
  assume n: "\<not> has_pair t x" and h: "has_pair t (js_trim x)"
  from js_trim_infix obtain p q where x: "x = p @ js_trim x @ q" by blast
  from h obtain u wo m wc v where "js_trim x = u @ wo @ m @ wc @ v"
    "map ascii_upper wo = map ascii_upper (open_tag t)"
    "map ascii_upper wc = map ascii_upper (close_tag t)"
    unfolding has_pair_iff by blast
  with x have "x = (p @ u) @ wo @ m @ wc @ (v @ q)" by simp
  with \<open>map ascii_upper wo = map ascii_upper (open_tag t)\<close>
    \<open>map ascii_upper wc = map ascii_upper (close_tag t)\<close>
  have "has_pair t x" unfolding has_pair_iff by blast
  with n show False by simp
qed

lemma trim_keeps_no_open: "\<not> ci_includes x tg \<Longrightarrow> \<not> ci_includes (js_trim x) tg"
proof
  assume n: "\<not> ci_includes x tg" and h: "ci_includes (js_trim x) tg"
  from js_trim_infix obtain p q where x: "x = p @ js_trim x @ q" by blast
  from h obtain m w v where "js_trim x = m @ w @ v" "map ascii_upper w = map ascii_upper tg"
    unfolding ci_includes_iff by blast
  with x have "x = (p @ m) @ w @ (v @ q)" by simp
  with \<open>map ascii_upper w = map ascii_upper tg\<close> have "ci_includes x tg"
    unfolding ci_includes_iff by blast
  with n show False by simp
qed

lemma delete_from_unmatched:
  "(\<And>z. suffix z s \<Longrightarrow> len z = None) \<Longrightarrow> delete_from len 0 s = s"
proof (induction s)
  case Nil
  show ?case by simp
next
  case (Cons c cs)
  have "len (c # cs) = None" by (rule Cons.prems) simp
  moreover have "delete_from len 0 cs = cs"
    by (rule Cons.IH) (simp add: Cons.prems suffix_Cons)
  ultimately show ?case by simp
qed

lemma delete_paired_no_pair: "\<not> has_pair t u \<Longrightarrow> delete_all (paired_block_len t) u = u"
  unfolding delete_all_def
  by (rule delete_from_unmatched) (auto simp: has_pair_suffix)

lemma clean_text_settled:
  assumes "unnested s"
  shows "\<forall>t \<in> set marker_names. \<not> has_pair t (clean_text s)"
    and "\<not> ci_includes (clean_text s) (open_tag ''THINK'')"
    and "\<not> ci_includes (clean_text s) (open_tag ''CANVAS'')"
proof -
  have n: "''THINK'' \<in> set marker_names" "''CANVAS'' \<in> set marker_names"
    "''MEMORY'' \<in> set marker_names" "''IMAGE'' \<in> set marker_names"
    "''SEARCH'' \<in> set marker_names" "''PROJECT'' \<in> set marker_names"
    "''STUDY'' \<in> set marker_names" "''DEEP'' \<in> set marker_names"
    by (simp_all add: marker_names_def)
  have s0: "settled {} {} s" using assms by (simp add: settled_def unnested_def)
  have s1: "settled {''THINK''} {} (delete_all (paired_block_len ''THINK'') s)"
    using settled_paired_pass [OF s0 n(1)] by simp
  have s2: "settled {''THINK''} {''THINK''}
      (delete_all (open_block_len ''THINK'') (delete_all (paired_block_len ''THINK'') s))"
    using settled_open_pass [OF s1 n(1)] n by simp
  have s3: "settled {''CANVAS'', ''THINK''} {''THINK''}
      (delete_all (paired_block_len ''CANVAS'')
      (delete_all (open_block_len ''THINK'') (delete_all (paired_block_len ''THINK'') s)))"
    using settled_paired_pass [OF s2 n(2)] n by simp
  have s4: "settled {''CANVAS'', ''THINK''} {''CANVAS'', ''THINK''}
      (delete_all (open_block_len ''CANVAS'')
      (delete_all (paired_block_len ''CANVAS'')
      (delete_all (open_block_len ''THINK'') (delete_all (paired_block_len ''THINK'') s))))"
    using settled_open_pass [OF s3 n(2)] n by simp
  have s5: "settled {''MEMORY'', ''CANVAS'', ''THINK''} {''CANVAS'', ''THINK''}
      (delete_all (paired_block_len ''MEMORY'')
      (delete_all (open_block_len ''CANVAS'')
      (delete_all (paired_block_len ''CANVAS'')
      (delete_all (open_block_len ''THINK'') (delete_all (paired_block_len ''THINK'') s)))))"
    using settled_paired_pass [OF s4 n(3)] n by simp
  have s6: "settled {''IMAGE'', ''MEMORY'', ''CANVAS'', ''THINK''} {''CANVAS'', ''THINK''}
      (delete_all (paired_block_len ''IMAGE'')
      (delete_all (paired_block_len ''MEMORY'')
      (delete_all (open_block_len ''CANVAS'')
      (delete_all (paired_block_len ''CANVAS'')
      (delete_all (open_block_len ''THINK'') (delete_all (paired_block_len ''THINK'') s))))))"
    using settled_paired_pass [OF s5 n(4)] n by simp
  have s7: "settled {''SEARCH'', ''IMAGE'', ''MEMORY'', ''CANVAS'', ''THINK''} {''CANVAS'', ''THINK''}
      (delete_all (paired_block_len ''SEARCH'')
      (delete_all (paired_block_len ''IMAGE'')
      (delete_all (paired_block_len ''MEMORY'')
      (delete_all (open_block_len ''CANVAS'')
      (delete_all (paired_block_len ''CANVAS'')
      (delete_all (open_block_len ''THINK'') (delete_all (paired_block_len ''THINK'') s)))))))"
    using settled_paired_pass [OF s6 n(5)] n by simp
  have s8: "settled {''PROJECT'', ''SEARCH'', ''IMAGE'', ''MEMORY'', ''CANVAS'', ''THINK''}
      {''CANVAS'', ''THINK''}
      (delete_all (paired_block_len ''PROJECT'')
      (delete_all (paired_block_len ''SEARCH'')
      (delete_all (paired_block_len ''IMAGE'')
      (delete_all (paired_block_len ''MEMORY'')
      (delete_all (open_block_len ''CANVAS'')
      (delete_all (paired_block_len ''CANVAS'')
      (delete_all (open_block_len ''THINK'') (delete_all (paired_block_len ''THINK'') s))))))))"
    using settled_paired_pass [OF s7 n(6)] n by simp
  have s9: "settled {''STUDY'', ''PROJECT'', ''SEARCH'', ''IMAGE'', ''MEMORY'', ''CANVAS'', ''THINK''}
      {''CANVAS'', ''THINK''}
      (delete_all (paired_block_len ''STUDY'')
      (delete_all (paired_block_len ''PROJECT'')
      (delete_all (paired_block_len ''SEARCH'')
      (delete_all (paired_block_len ''IMAGE'')
      (delete_all (paired_block_len ''MEMORY'')
      (delete_all (open_block_len ''CANVAS'')
      (delete_all (paired_block_len ''CANVAS'')
      (delete_all (open_block_len ''THINK'') (delete_all (paired_block_len ''THINK'') s)))))))))"
    using settled_paired_pass [OF s8 n(7)] n by simp
  have s10: "settled {''DEEP'', ''STUDY'', ''PROJECT'', ''SEARCH'', ''IMAGE'', ''MEMORY'', ''CANVAS'', ''THINK''}
      {''CANVAS'', ''THINK''}
      (delete_all (paired_block_len ''DEEP'')
      (delete_all (paired_block_len ''STUDY'')
      (delete_all (paired_block_len ''PROJECT'')
      (delete_all (paired_block_len ''SEARCH'')
      (delete_all (paired_block_len ''IMAGE'')
      (delete_all (paired_block_len ''MEMORY'')
      (delete_all (open_block_len ''CANVAS'')
      (delete_all (paired_block_len ''CANVAS'')
      (delete_all (open_block_len ''THINK'') (delete_all (paired_block_len ''THINK'') s))))))))))"
    using settled_paired_pass [OF s9 n(8)] n by simp
  define x where "x = delete_all (paired_block_len ''DEEP'')
      (delete_all (paired_block_len ''STUDY'')
      (delete_all (paired_block_len ''PROJECT'')
      (delete_all (paired_block_len ''SEARCH'')
      (delete_all (paired_block_len ''IMAGE'')
      (delete_all (paired_block_len ''MEMORY'')
      (delete_all (open_block_len ''CANVAS'')
      (delete_all (paired_block_len ''CANVAS'')
      (delete_all (open_block_len ''THINK'') (delete_all (paired_block_len ''THINK'') s)))))))))"
  have c: "clean_text s = js_trim x" by (simp add: clean_text_def x_def)
  from s10 have p: "\<forall>t \<in> set marker_names. \<not> has_pair t x"
    and o: "\<not> ci_includes x (open_tag ''THINK'')" "\<not> ci_includes x (open_tag ''CANVAS'')"
    unfolding x_def [symmetric] by (simp_all add: settled_def marker_names_def)
  show "\<forall>t \<in> set marker_names. \<not> has_pair t (clean_text s)"
    using p trim_keeps_no_pair unfolding c by blast
  show "\<not> ci_includes (clean_text s) (open_tag ''THINK'')"
    unfolding c by (rule trim_keeps_no_open [OF o(1)])
  show "\<not> ci_includes (clean_text s) (open_tag ''CANVAS'')"
    unfolding c by (rule trim_keeps_no_open [OF o(2)])
qed

lemma settled_text_is_clean:
  assumes p: "\<forall>t \<in> set marker_names. \<not> has_pair t u"
    and o: "\<not> ci_includes u (open_tag ''THINK'')" "\<not> ci_includes u (open_tag ''CANVAS'')"
  shows "clean_text u = js_trim u"
proof -
  have n: "\<not> has_pair ''THINK'' u" "\<not> has_pair ''CANVAS'' u" "\<not> has_pair ''MEMORY'' u"
    "\<not> has_pair ''IMAGE'' u" "\<not> has_pair ''SEARCH'' u" "\<not> has_pair ''PROJECT'' u"
    "\<not> has_pair ''STUDY'' u" "\<not> has_pair ''DEEP'' u"
    using p by (simp_all add: marker_names_def)
  show ?thesis
    unfolding clean_text_def
    by (simp only: delete_paired_no_pair [OF n(1)] delete_open_none [OF o(1)]
          delete_paired_no_pair [OF n(2)] delete_open_none [OF o(2)]
          delete_paired_no_pair [OF n(3)] delete_paired_no_pair [OF n(4)]
          delete_paired_no_pair [OF n(5)] delete_paired_no_pair [OF n(6)]
          delete_paired_no_pair [OF n(7)] delete_paired_no_pair [OF n(8)])
qed

text \<open>
  C7 (amended). For every text in which no \<open><\<close> follows another \<open><\<close> without a \<open>>\<close>
  between them, display-time extraction applied to the clean text it produced gives that
  clean text back; and the clean text holds no paired block of a known marker and no
  opening THINK or CANVAS tag.
\<close>

theorem clean_idempotent_on_unnested_text:
  "unnested s \<Longrightarrow>
     clean (parseMessageContent (clean (parseMessageContent s))) = clean (parseMessageContent s)
     \<and> (\<forall>t \<in> set marker_names. \<not> has_pair t (clean (parseMessageContent s)))
     \<and> \<not> ci_includes (clean (parseMessageContent s)) (open_tag ''THINK'')
     \<and> \<not> ci_includes (clean (parseMessageContent s)) (open_tag ''CANVAS'')"
  using clean_text_settled [of s]
        settled_text_is_clean [of "clean_text s"]
  by (simp add: clean_parse js_trim_clean_text)

lemmas eval_clean =
  parseMessageContent_def clean_text_def delete_all_def paired_block_len_def open_block_len_def
  open_tag_def close_tag_def js_def ci_prefix_def ascii_upper_def js_trim_def is_space_def
  is_line_terminator_def Let_def

lemma clean_example:
  "clean (parseMessageContent (js ''a<think>x</think> b <IMAGE> tag '')) = js ''a b <IMAGE> tag''"
  by (simp add: eval_clean)

lemma unnested_example: "unnested (js ''a<think>x</think> b <IMAGE> tag '')"
  by (simp add: unnested_def js_def)

theorem clean_idempotent_on_unnested_text_witness:
  "unnested (js ''a<think>x</think> b <IMAGE> tag '')
   \<and> clean (parseMessageContent (clean (parseMessageContent (js ''a<think>x</think> b <IMAGE> tag ''))))
       = clean (parseMessageContent (js ''a<think>x</think> b <IMAGE> tag ''))
   \<and> clean (parseMessageContent (js ''a<think>x</think> b <IMAGE> tag '')) = js ''a b <IMAGE> tag''"
  using clean_idempotent_on_unnested_text [OF unnested_example] unnested_example clean_example
  by simp

lemma residue_input_is_nested: "\<not> unnested (js ''<S<DEEP></DEEP>EARCH>a</SEARCH>'')"
  by (simp add: unnested_def js_def)

text \<open>
  C7 as stated fails: deleting a \<open>DEEP\<close> block can join the pieces of a \<open>SEARCH\<close>
  block, whose deletion has already run. The clean text then still holds a marker, and
  a second extraction deletes it.
\<close>

lemma residue_first: "clean (parseMessageContent (js ''<S<DEEP></DEEP>EARCH>a</SEARCH>'')) = js ''<SEARCH>a</SEARCH>''"
  by (simp add: eval_clean)

lemma residue_second: "clean (parseMessageContent (js ''<SEARCH>a</SEARCH>'')) = []"
  by (simp add: eval_clean)

theorem clean_not_idempotent:
  "clean (parseMessageContent (clean (parseMessageContent (js ''<S<DEEP></DEEP>EARCH>a</SEARCH>''))))
     \<noteq> clean (parseMessageContent (js ''<S<DEEP></DEEP>EARCH>a</SEARCH>''))"
  by (simp only: residue_first residue_second) (simp add: js_def)

section \<open>Properties of the orchestration loop\<close>

lemma ai_reply_reply [simp]: "ai_reply inp (reply inp v)"
  by (simp add: ai_reply_def reply_def)

lemma SEARCH_ai: "handle_SEARCH E inp ctx v w = (Return r, v', w') \<Longrightarrow> ai_reply inp r"
  by (auto simp: handle_SEARCH_def Let_def split: prod.splits sum.splits option.splits)

lemma DEEP_SEARCH_ai: "handle_DEEP_SEARCH E inp ctx v w = (Return r, v', w') \<Longrightarrow> ai_reply inp r"
  by (auto simp: handle_DEEP_SEARCH_def Let_def split: prod.splits sum.splits option.splits)

lemma THINK_ai: "handle_THINK E inp ctx v w = (Return r, v', w') \<Longrightarrow> ai_reply inp r"
  by (auto simp: handle_THINK_def Let_def split: prod.splits sum.splits option.splits)

lemma IMAGE_ai: "handle_IMAGE E inp ctx v w = (Return r, v', w') \<Longrightarrow> ai_reply inp r"
  by (auto simp: handle_IMAGE_def Let_def ai_reply_def reply_def split: prod.splits sum.splits option.splits)

lemma CANVAS_ai: "handle_CANVAS E inp ctx v w = (Return r, v', w') \<Longrightarrow> ai_reply inp r"
  by (auto simp: handle_CANVAS_def Let_def split: prod.splits sum.splits option.splits list.splits)

lemma PROJECT_ai: "handle_PROJECT E inp ctx v w = (Return r, v', w') \<Longrightarrow> ai_reply inp r"
  by (auto simp: handle_PROJECT_def Let_def split: prod.splits sum.splits option.splits)

lemma STUDY_ai: "handle_STUDY E inp ctx v w = (Return r, v', w') \<Longrightarrow> ai_reply inp r"
  by (auto simp: handle_STUDY_def Let_def split: prod.splits sum.splits option.splits)

lemma SIMPLE_ai: "handle_SIMPLE E inp ctx v w = (Return r, v', w') \<Longrightarrow> ai_reply inp r"
  by (auto simp: handle_SIMPLE_def Let_def split: prod.splits sum.splits option.splits)

lemma run_handler_ai: "run_handler E inp ctx v w = (Return r, v', w') \<Longrightarrow> ai_reply inp r"
  unfolding run_handler_def
  by (cases "currentAction v")
     (simp_all add: SEARCH_ai DEEP_SEARCH_ai THINK_ai IMAGE_ai CANVAS_ai PROJECT_ai STUDY_ai SIMPLE_ai)

lemma agent_loop_ai:
  "agent_loop E inp ctx n v w = (Inr r, n', v', w') \<Longrightarrow> ai_reply inp r"
proof (induction E inp ctx n v w rule: agent_loop.induct)
  case (1 E inp ctx loopCount v w)
  show ?case
  proof (cases "loopCount < MAX_LOOPS")
    case False
    with "1.prems" show ?thesis by (auto simp: agent_loop.simps)
  next
    case True
    obtain out v1 w1 where h: "run_handler E inp ctx v w = (out, v1, w1)"
      by (cases "run_handler E inp ctx v w") auto
    show ?thesis
    proof (cases out)
      case (Return x)
      with "1.prems" True h have "x = r" by (simp add: agent_loop.simps)
      with h Return show ?thesis using run_handler_ai by blast
    next
      case Continue
      with "1.prems" True h have "agent_loop E inp ctx (loopCount + 1) v1 w1 = (Inr r, n', v', w')"
        by (simp add: agent_loop.simps)
      then show ?thesis by (rule "1.IH" [OF True refl h [symmetric] refl Continue])
    next
      case (Throw e)
      with "1.prems" True h show ?thesis by (simp add: agent_loop.simps)
    qed
  qed
qed

lemma try_block_ai: "try_block E inp w = (Inr r, n, w') \<Longrightarrow> ai_reply inp r"
  by (auto simp: try_block_def Let_def split: sum.splits prod.splits dest: agent_loop_ai)

lemmas eval_agent =
  runAutonomousAgent_def runAutonomousAgent_full_def try_block_def agent_loop.simps run_handler_def
  MAX_LOOPS_def reply_def emit_def log_def world0_def template_def Let_def
  example_env_def example_input_def says_def example_vars_def example_context_def

lemmas eval_stream =
  stream_with_retry_def generateContentStreamWithRetry_def retry_loop.simps isQuotaError_def
  geminiHistory_def flash_def new_Error_def

lemma sink_callback_quiet: "quiet (Some (\<lambda>msg. emit inp (Text msg)))"
  by (simp add: quiet_def emit_def)

text \<open>
  C10. Every message of the result of \<open>runAutonomousAgent\<close>, whichever path produced
  it, has sender \<open>ai\<close> and the project id and chat id of the submitted turn.
\<close>

theorem every_message_is_ai_of_this_turn:
  "\<forall>m \<in> set (messages (runAutonomousAgent E inp)).
     sender m = js ''ai'' \<and> project_id m = input_project_id inp \<and> chat_id m = input_chat_id inp"
proof -
  have "ai_reply inp (runAutonomousAgent E inp)"
  proof (cases "try_block E inp world0")
    case (fields r n w')
    then show ?thesis
      by (cases r) (auto simp: runAutonomousAgent_def runAutonomousAgent_full_def Let_def ai_reply_def
                      dest: try_block_ai)
  qed
  then show ?thesis by (simp add: ai_reply_def)
qed

lemma image_run:
  "messages (runAutonomousAgent (example_env IMAGE (Some (js ''a cat'')) [] (Inr (js ''QUJD''))) example_input)
   = [\<lparr>project_id = js ''p1'', chat_id = js ''c1'', sender = js ''ai'', text' = [],
       image_base64 = Some (js ''QUJD''), groundingMetadata = None\<rparr>]"
  by (simp add: eval_agent handle_IMAGE_def)

theorem every_message_is_ai_of_this_turn_witness:
  "hd (messages (runAutonomousAgent (example_env IMAGE (Some (js ''a cat'')) [] (Inr (js ''QUJD''))) example_input))
     \<in> set (messages (runAutonomousAgent (example_env IMAGE (Some (js ''a cat'')) [] (Inr (js ''QUJD''))) example_input))
   \<and> sender (hd (messages (runAutonomousAgent (example_env IMAGE (Some (js ''a cat'')) [] (Inr (js ''QUJD''))) example_input)))
       = js ''ai''
   \<and> project_id (hd (messages (runAutonomousAgent (example_env IMAGE (Some (js ''a cat'')) [] (Inr (js ''QUJD''))) example_input)))
       = js ''p1''
   \<and> chat_id (hd (messages (runAutonomousAgent (example_env IMAGE (Some (js ''a cat'')) [] (Inr (js ''QUJD''))) example_input)))
       = js ''c1''"
proof -
  let ?r = "runAutonomousAgent (example_env IMAGE (Some (js ''a cat'')) [] (Inr (js ''QUJD''))) example_input"
  have mem: "hd (messages ?r) \<in> set (messages ?r)" by (simp add: image_run)
  have ids: "input_project_id example_input = js ''p1''" "input_chat_id example_input = js ''c1''"
    by (simp_all add: example_input_def)
  show ?thesis
    using every_message_is_ai_of_this_turn
            [of "example_env IMAGE (Some (js ''a cat'')) [] (Inr (js ''QUJD''))" example_input,
             THEN bspec, OF mem] mem
    by (simp only: ids simp_thms)
qed

lemma agent_loop_count:
  "agent_loop E inp ctx n v w = (r, n', v', w') \<Longrightarrow> n \<le> MAX_LOOPS \<Longrightarrow> n' \<le> MAX_LOOPS"
proof (induction E inp ctx n v w rule: agent_loop.induct)
  case (1 E inp ctx loopCount v w)
  show ?case
  proof (cases "loopCount < MAX_LOOPS")
    case False
    with "1.prems" show ?thesis by (auto simp: agent_loop.simps)
  next
    case True
    obtain out v1 w1 where h: "run_handler E inp ctx v w = (out, v1, w1)"
      by (cases "run_handler E inp ctx v w") auto
    show ?thesis
    proof (cases out)
      case (Return x)
      with "1.prems" True h show ?thesis by (auto simp: agent_loop.simps)
    next
      case Continue
      with "1.prems" True h have "agent_loop E inp ctx (loopCount + 1) v1 w1 = (r, n', v', w')"
        by (simp add: agent_loop.simps)
      then show ?thesis
        using True by (intro "1.IH" [OF True refl h [symmetric] refl Continue]) simp_all
    next
      case (Throw e)
      with "1.prems" True h show ?thesis by (auto simp: agent_loop.simps)
    qed
  qed
qed

lemma agent_loop_count0:
  "agent_loop E inp ctx 0 v w = (r, n', v', w') \<Longrightarrow> n' \<le> MAX_LOOPS"
  using agent_loop_count [of E inp ctx 0 v w r n' v' w'] by simp

lemma try_block_count: "fst (snd (try_block E inp w)) \<le> MAX_LOOPS"
  by (auto simp: try_block_def Let_def split: sum.splits prod.splits dest: agent_loop_count0)

text \<open>
  C2. A turn carries out at most two handler iterations, whatever the collaborators
  answer; and from every loop state that has reached the ceiling the loop falls through
  and returns, as an ordinary result, one message with the text accumulated so far.
\<close>

theorem at_most_two_iterations_then_fall_through:
  "fst (snd (runAutonomousAgent_full E inp w)) \<le> 2
   \<and> (MAX_LOOPS \<le> loopCount \<longrightarrow>
        agent_loop E inp ctx loopCount v w' = (Inr (reply inp v), loopCount, v, w')
        \<and> map text' (messages (reply inp v)) = [finalResponseText v])"
proof -
  have "fst (snd (runAutonomousAgent_full E inp w)) = fst (snd (try_block E inp w))"
    by (cases "try_block E inp w" rule: prod_cases3)
       (auto simp: runAutonomousAgent_full_def Let_def split: sum.splits)
  then have "fst (snd (runAutonomousAgent_full E inp w)) \<le> 2"
    using try_block_count [of E inp w] by (simp add: MAX_LOOPS_def)
  moreover have "MAX_LOOPS \<le> loopCount \<longrightarrow>
        agent_loop E inp ctx loopCount v w' = (Inr (reply inp v), loopCount, v, w')"
    by (simp add: agent_loop.simps)
  moreover have "map text' (messages (reply inp v)) = [finalResponseText v]"
    by (simp add: reply_def)
  ultimately show ?thesis by simp
qed

lemmas eval_redirect =
  handle_SIMPLE_def simple_chunk_def redirect_def match_pair_def pair_at_def open_tag_def close_tag_def
  js_def match_deep_search_def deep_search_at_def ci_prefix_def ascii_upper_def is_line_terminator_def
  is_space_def js_trim_def

lemma two_iterations_run:
  "fst (snd (runAutonomousAgent_full
      (example_env SIMPLE None [says ''<SEARCH>weather in Tokyo</SEARCH>'', says ''Sunny.''] (Inr []))
      example_input world0)) = 2"
  by (simp add: eval_agent eval_stream eval_redirect handle_SEARCH_def search_chunk_def)

theorem at_most_two_iterations_then_fall_through_witness:
  "fst (snd (runAutonomousAgent_full
      (example_env SIMPLE None [says ''<SEARCH>weather in Tokyo</SEARCH>'', says ''Sunny.''] (Inr []))
      example_input world0)) = 2
   \<and> MAX_LOOPS \<le> 2
   \<and> agent_loop (example_env SIMPLE None [says ''<SEARCH>weather in Tokyo</SEARCH>'', says ''Sunny.''] (Inr []))
         example_input example_context 2 (example_vars SIMPLE) world0
       = (Inr (reply example_input (example_vars SIMPLE)), 2, example_vars SIMPLE, world0)
   \<and> map text' (messages (reply example_input (example_vars SIMPLE))) = [[]]"
proof -
  have m: "MAX_LOOPS \<le> 2" by (simp add: MAX_LOOPS_def)
  have t: "finalResponseText (example_vars SIMPLE) = []" by (simp add: example_vars_def)
  show ?thesis
    using at_most_two_iterations_then_fall_through
            [of "example_env SIMPLE None [says ''<SEARCH>weather in Tokyo</SEARCH>'', says ''Sunny.''] (Inr [])"
                example_input world0 2 example_context "example_vars SIMPLE" world0]
          m two_iterations_run
    by (simp only: t simp_thms)
qed

text \<open>
  C6. The entry point always returns a result. When the \<open>try\<close> block raises an error,
  the result is a single message whose text is \<open>An error occurred: \<close> followed by the
  user-friendly rendering of that error.
\<close>

theorem escaping_error_becomes_message:
  "fst (try_block E inp w) = Inl error \<Longrightarrow>
     (\<exists>m. messages (fst (runAutonomousAgent_full E inp w)) = [m]
          \<and> text' m = js ''An error occurred: '' @ getUserFriendlyError E error
          \<and> prefix (js ''An error occurred: '') (text' m))"
  by (cases "try_block E inp w" rule: prod_cases3)
     (simp add: runAutonomousAgent_full_def Let_def)

lemma failing_run:
  "fst (try_block (example_env SIMPLE None [Inl server_error] (Inr [])) example_input world0)
     = Inl server_error"
  by (simp add: eval_agent eval_stream handle_SIMPLE_def server_error_def js_def)

lemma failing_run_result:
  "map text' (messages (fst (runAutonomousAgent_full
      (example_env SIMPLE None [Inl server_error] (Inr [])) example_input world0)))
   = [js ''An error occurred: boom'']"
  by (simp add: eval_agent eval_stream handle_SIMPLE_def server_error_def js_def)

theorem escaping_error_becomes_message_witness:
  "fst (try_block (example_env SIMPLE None [Inl server_error] (Inr [])) example_input world0)
     = Inl server_error
   \<and> \<not> isQuotaError server_error
   \<and> (\<exists>m. messages (fst (runAutonomousAgent_full
              (example_env SIMPLE None [Inl server_error] (Inr [])) example_input world0)) = [m]
          \<and> text' m = js ''An error occurred: boom''
          \<and> prefix (js ''An error occurred: '') (text' m))"
proof -
  have f: "getUserFriendlyError (example_env SIMPLE None [Inl server_error] (Inr [])) server_error = js ''boom''"
    by (simp add: example_env_def template_def server_error_def)
  have n: "\<not> isQuotaError server_error"
    by (simp add: isQuotaError_def server_error_def js_def)
  have a: "js ''An error occurred: '' @ js ''boom'' = js ''An error occurred: boom''"
    by (simp add: js_def)
  show ?thesis
    using escaping_error_becomes_message [OF failing_run] failing_run n
    by (simp only: f a simp_thms)
qed

lemma IMAGE_handler_result:
  "(generateImage E (case routing_parameters_prompt v of
                       None \<Rightarrow> currentPrompt v | Some p \<Rightarrow> if p = [] then currentPrompt v else p)
       (apiKey inp) (preferred_image_model inp) = Inr imageBase64 \<longrightarrow>
     (\<exists>m v' w'. handle_IMAGE E inp ctx v w = (Return \<lparr>messages = [m]\<rparr>, v', w')
         \<and> image_base64 m = Some imageBase64 \<and> text' m = finalResponseText v))
   \<and> (generateImage E (case routing_parameters_prompt v of
                       None \<Rightarrow> currentPrompt v | Some p \<Rightarrow> if p = [] then currentPrompt v else p)
       (apiKey inp) (preferred_image_model inp) = Inl (new_Error reason) \<longrightarrow>
     (\<exists>m v' w'. handle_IMAGE E inp ctx v w = (Return \<lparr>messages = [m]\<rparr>, v', w')
         \<and> image_base64 m = None
         \<and> text' m = finalResponseText v @ js ''\<newline>\<newline>(Image generation failed: '' @ reason @ js '')''))"
  by (simp add: handle_IMAGE_def reply_def Let_def new_Error_def template_def)

text \<open>
  C8. A turn that the router sends to IMAGE: when the image generator succeeds, the result
  is one message that carries the image and whose text is empty, so it holds no failure
  note; when the generator raises \<open>Error("rate limited")\<close>, the result is one message
  without image whose text is the failure note
  \<open>(Image generation failed: rate limited)\<close> behind two line feeds.
\<close>

theorem image_turn_result:
  assumes "route E (prompt inp) (user_id inp) (apiKey inp)
             (case files inp of None \<Rightarrow> 0 | Some fs \<Rightarrow> length fs) = Inr routing"
    and "action routing = IMAGE"
    and "getContext E = Inr memory"
    and "imagePrompt = (case parameters_prompt routing of
                          None \<Rightarrow> prompt inp | Some p \<Rightarrow> if p = [] then prompt inp else p)"
  shows "(generateImage E imagePrompt (apiKey inp) (preferred_image_model inp) = Inr imageBase64 \<longrightarrow>
           (\<exists>m. messages (runAutonomousAgent E inp) = [m]
                \<and> image_base64 m = Some imageBase64 \<and> text' m = []
                \<and> \<not> js_includes (text' m) (js ''(Image generation failed'')))
       \<and> (generateImage E imagePrompt (apiKey inp) (preferred_image_model inp)
              = Inl (new_Error (js ''rate limited'')) \<longrightarrow>
           (\<exists>m. messages (runAutonomousAgent E inp) = [m]
                \<and> image_base64 m = None
                \<and> text' m = js ''\<newline>\<newline>(Image generation failed: rate limited)''
                \<and> js_includes (text' m) (js ''(Image generation failed: rate limited)'')))"
proof -
  have i: "js_includes (js ''\<newline>\<newline>(Image generation failed: rate limited)'')
             (js ''(Image generation failed: rate limited)'')"
    by (simp add: js_def)
  have n: "js ''(Image generation failed'' \<noteq> []"
    by (simp add: js_def)
  have a: "js ''\<newline>\<newline>(Image generation failed: '' @ js ''rate limited'' @ js '')''
           = js ''\<newline>\<newline>(Image generation failed: rate limited)''"
    by (simp add: js_def)
  show ?thesis
    using assms
    by (auto simp: runAutonomousAgent_def runAutonomousAgent_full_def try_block_def agent_loop.simps
          run_handler_def handle_IMAGE_def MAX_LOOPS_def reply_def Let_def new_Error_def template_def
          i n a split: option.splits)
qed

theorem image_turn_result_witness:
  "(\<exists>m. messages (runAutonomousAgent (example_env IMAGE (Some (js ''a cat'')) [] (Inr (js ''QUJD'')))
                    example_input) = [m]
        \<and> image_base64 m = Some (js ''QUJD'') \<and> text' m = []
        \<and> \<not> js_includes (text' m) (js ''(Image generation failed''))
   \<and> (\<exists>m. messages (runAutonomousAgent
                    (example_env IMAGE (Some (js ''a cat'')) [] (Inl (new_Error (js ''rate limited''))))
                    example_input) = [m]
        \<and> image_base64 m = None
        \<and> text' m = js ''\<newline>\<newline>(Image generation failed: rate limited)''
        \<and> js_includes (text' m) (js ''(Image generation failed: rate limited)''))"
proof -
  have c: "js ''a cat'' \<noteq> []" by (simp add: js_def)
  have 1: "\<exists>m. messages (runAutonomousAgent (example_env IMAGE (Some (js ''a cat'')) [] (Inr (js ''QUJD'')))
                    example_input) = [m]
        \<and> image_base64 m = Some (js ''QUJD'') \<and> text' m = []
        \<and> \<not> js_includes (text' m) (js ''(Image generation failed'')"
    using image_turn_result
            [of "example_env IMAGE (Some (js ''a cat'')) [] (Inr (js ''QUJD''))" example_input
                "\<lparr>action = IMAGE, parameters_prompt = Some (js ''a cat'')\<rparr>" "js ''{}''" "js ''a cat''"
                "js ''QUJD''"]
    by (simp add: example_env_def example_input_def c)
  have 2: "\<exists>m. messages (runAutonomousAgent
                    (example_env IMAGE (Some (js ''a cat'')) [] (Inl (new_Error (js ''rate limited''))))
                    example_input) = [m]
        \<and> image_base64 m = None
        \<and> text' m = js ''\<newline>\<newline>(Image generation failed: rate limited)''
        \<and> js_includes (text' m) (js ''(Image generation failed: rate limited)'')"
    using image_turn_result
            [of "example_env IMAGE (Some (js ''a cat'')) [] (Inl (new_Error (js ''rate limited'')))"
                example_input
                "\<lparr>action = IMAGE, parameters_prompt = Some (js ''a cat'')\<rparr>" "js ''{}''" "js ''a cat''"]
    by (simp add: example_env_def example_input_def c)
  show ?thesis using 1 2 by blast
qed

section \<open>Grounding metadata\<close>

lemma all_grounding_none: "\<not> list_ex carries_grounding cs \<Longrightarrow> all_grounding cs = []"
  by (induction cs) (auto simp: all_grounding_def carries_grounding_def)

lemma all_grounding_Cons:
  "all_grounding (c # cs) = (case groundingChunks c of None \<Rightarrow> [] | Some gs \<Rightarrow> gs) @ all_grounding cs"
  by (simp add: all_grounding_def)

lemma pushed_Cons:
  "pushed payload (c # cs) =
     pushed (case groundingChunks c of None \<Rightarrow> payload
             | Some gs \<Rightarrow> Some ((case payload of None \<Rightarrow> [] | Some m \<Rightarrow> m) @ gs)) cs"
  by (cases "groundingChunks c"; cases payload; cases "list_ex carries_grounding cs")
     (simp_all add: pushed_def all_grounding_Cons all_grounding_none carries_grounding_def)

lemma search_chunk_payload:
  "metadataPayload (fst (search_chunk inp c s)) =
     (case groundingChunks c of None \<Rightarrow> metadataPayload (fst s)
      | Some gs \<Rightarrow> Some ((case metadataPayload (fst s) of None \<Rightarrow> [] | Some m \<Rightarrow> m) @ gs))"
  by (cases s) (simp add: search_chunk_def push_grounding_def Let_def split: option.splits)

lemma search_appends_every_grounding:
  "metadataPayload (fst (fold (search_chunk inp) cs s)) = pushed (metadataPayload (fst s)) cs"
proof (induction cs arbitrary: s)
  case Nil
  show ?case by (simp add: pushed_def)
next
  case (Cons c cs)
  show ?case
    by (simp add: Cons.IH search_chunk_payload pushed_Cons)
qed

lemma simple_chunk_payload:
  "metadataPayload (fst (snd (simple_chunk inp c s))) =
     (if has_text c
      then (case groundingChunks c of None \<Rightarrow> metadataPayload (fst (snd s))
            | Some gs \<Rightarrow> Some ((case metadataPayload (fst (snd s)) of None \<Rightarrow> [] | Some m \<Rightarrow> m) @ gs))
      else metadataPayload (fst (snd s)))"
  by (cases s rule: prod_cases3)
     (simp add: simple_chunk_def push_grounding_def has_text_def Let_def split: option.splits)

lemma simple_appends_grounding_of_text_chunks_only:
  "metadataPayload (fst (snd (fold (simple_chunk inp) cs s)))
     = pushed (metadataPayload (fst (snd s))) (filter has_text cs)"
proof (induction cs arbitrary: s)
  case Nil
  show ?case by (simp add: pushed_def)
next
  case (Cons c cs)
  show ?case
    by (simp add: Cons.IH simple_chunk_payload pushed_Cons)
qed

text \<open>
  C9 at its failing input. The stream has a chunk with text and then a chunk without
  text that carries one grounding entry. The SEARCH handler puts the entry into the
  metadata of its message; the SIMPLE handler drops it.
\<close>

theorem simple_drops_grounding_of_textless_chunk:
  "map groundingMetadata (messages (runAutonomousAgent
      (example_env SEARCH None [textless_grounding] (Inr [])) example_input)) = [Some [cited]]
   \<and> map groundingMetadata (messages (runAutonomousAgent
      (example_env SIMPLE None [textless_grounding] (Inr [])) example_input)) = [None]"
  by (simp add: eval_agent eval_stream eval_redirect handle_SEARCH_def search_chunk_def
        textless_grounding_def push_grounding_def)

section \<open>The accumulated response text\<close>

lemma search_chunk_appends:
  "prefix (finalResponseText (fst s)) (finalResponseText (fst (search_chunk inp c s)))"
  by (cases s)
     (simp add: search_chunk_def push_grounding_def Let_def split: option.splits)

lemma text_chunk_appends:
  "prefix (finalResponseText (fst s)) (finalResponseText (fst (text_chunk inp c s)))"
  by (cases s) (simp add: text_chunk_def Let_def split: option.splits)

lemma simple_chunk_appends:
  "prefix (finalResponseText (fst (snd s))) (finalResponseText (fst (snd (simple_chunk inp c s))))"
  by (cases s rule: prod_cases3)
     (simp add: simple_chunk_def push_grounding_def Let_def split: option.splits)

lemma fold_appends:
  assumes "\<And>c s. prefix (text_of s) (text_of (step c s))"
  shows "prefix (text_of s) (text_of (fold step cs s))"
proof (induction cs arbitrary: s)
  case Nil
  show ?case by simp
next
  case (Cons c cs)
  have "prefix (text_of s) (text_of (step c s))" by (rule assms)
  also have "prefix (text_of (step c s)) (text_of (fold step cs (step c s)))" by (rule Cons.IH)
  finally show ?case by simp
qed

lemma search_stream_appends:
  "fold (search_chunk inp) cs (v, w) = (v', w') \<Longrightarrow> prefix (finalResponseText v) (finalResponseText v')"
  using fold_appends [of "\<lambda>s. finalResponseText (fst s)" "search_chunk inp" "(v, w)" cs]
  by (simp add: search_chunk_appends)

lemma text_stream_appends:
  "fold (text_chunk inp) cs (v, w) = (v', w') \<Longrightarrow> prefix (finalResponseText v) (finalResponseText v')"
  using fold_appends [of "\<lambda>s. finalResponseText (fst s)" "text_chunk inp" "(v, w)" cs]
  by (simp add: text_chunk_appends)

lemma simple_stream_appends:
  "fold (simple_chunk inp) cs (g, v, w) = (g', v', w') \<Longrightarrow>
     prefix (finalResponseText v) (finalResponseText v')"
  using fold_appends [of "\<lambda>s. finalResponseText (fst (snd s))" "simple_chunk inp" "(g, v, w)" cs]
  by (simp add: simple_chunk_appends)

lemma redirect_keeps_text:
  "redirect original g v = Some v' \<Longrightarrow> finalResponseText v' = finalResponseText v"
  by (auto simp: redirect_def Let_def split: option.splits)

lemma SEARCH_appends:
  "handle_SEARCH E inp ctx v w = (out, v', w') \<Longrightarrow> prefix (finalResponseText v) (finalResponseText v')"
  by (auto simp: handle_SEARCH_def Let_def split: prod.splits sum.splits option.splits
           dest: search_stream_appends)

lemma DEEP_SEARCH_appends:
  "handle_DEEP_SEARCH E inp ctx v w = (out, v', w') \<Longrightarrow> prefix (finalResponseText v) (finalResponseText v')"
  by (auto simp: handle_DEEP_SEARCH_def Let_def split: prod.splits sum.splits option.splits)

lemma THINK_appends:
  "handle_THINK E inp ctx v w = (out, v', w') \<Longrightarrow> prefix (finalResponseText v) (finalResponseText v')"
  by (auto simp: handle_THINK_def Let_def split: prod.splits sum.splits option.splits
           dest: text_stream_appends)

lemma IMAGE_appends:
  "handle_IMAGE E inp ctx v w = (out, v', w') \<Longrightarrow> prefix (finalResponseText v) (finalResponseText v')"
  by (auto simp: handle_IMAGE_def Let_def split: prod.splits sum.splits option.splits)

lemma PROJECT_appends:
  "handle_PROJECT E inp ctx v w = (out, v', w') \<Longrightarrow> prefix (finalResponseText v) (finalResponseText v')"
  by (auto simp: handle_PROJECT_def Let_def split: prod.splits sum.splits option.splits)

lemma STUDY_appends:
  "handle_STUDY E inp ctx v w = (out, v', w') \<Longrightarrow> prefix (finalResponseText v) (finalResponseText v')"
  by (auto simp: handle_STUDY_def Let_def split: prod.splits sum.splits option.splits
           dest: text_stream_appends)

lemma simple_stream_then_redirect:
  "fold (simple_chunk inp) cs (g, v, w) = (g', v2, w2) \<Longrightarrow> redirect original g' v2 = Some v3 \<Longrightarrow>
     prefix (finalResponseText v) (finalResponseText v3)"
  using simple_stream_appends [of inp cs g v w g' v2 w2] redirect_keeps_text [of original g' v2 v3]
  by simp

lemma SIMPLE_appends:
  "handle_SIMPLE E inp ctx v w = (out, v', w') \<Longrightarrow> prefix (finalResponseText v) (finalResponseText v')"
  by (auto simp: handle_SIMPLE_def Let_def split: prod.splits sum.splits option.splits
           dest: simple_stream_appends simple_stream_then_redirect)

lemma CANVAS_replaces:
  "handle_CANVAS E inp ctx v w = (Return r, v', w') \<Longrightarrow>
     (\<exists>canvasMessage rest.
        snd (runCanvasAgent E (inp\<lparr>prompt := currentPrompt v\<rparr>)) = Inr (canvasMessage # rest)
        \<and> finalResponseText v' = (case canvasMessage of None \<Rightarrow> [] | Some t \<Rightarrow> t))"
  by (auto simp: handle_CANVAS_def Let_def split: prod.splits sum.splits option.splits list.splits)

lemma run_handler_appends:
  "currentAction v \<noteq> CANVAS \<Longrightarrow> run_handler E inp ctx v w = (out, v', w') \<Longrightarrow>
     prefix (finalResponseText v) (finalResponseText v')"
  unfolding run_handler_def
  by (cases "currentAction v")
     (simp_all add: SEARCH_appends DEEP_SEARCH_appends THINK_appends IMAGE_appends PROJECT_appends
        STUDY_appends SIMPLE_appends)

lemma CANVAS_outcome:
  "fst (handle_CANVAS E inp ctx v w) \<noteq> Continue
   \<and> (fst (handle_CANVAS E inp ctx v w) = Return r \<longrightarrow>
        finalResponseText (fst (snd (handle_CANVAS E inp ctx v w))) = canvas_text E inp v)"
  by (auto simp: handle_CANVAS_def canvas_text_def Let_def
           split: prod.splits sum.splits option.splits list.splits)

text \<open>
  C3 (amended). Every handler but CANVAS only appends to the accumulated response text:
  the text before a chunk is a prefix of the text after it, and the text before a handler
  iteration is a prefix of the text after it, whether the iteration returns, raises or
  redirects. The CANVAS handler never redirects, and when it returns it has replaced the
  accumulated text by the text of the canvas collaborator's first message.
\<close>

theorem handlers_append_but_canvas_replaces:
  "prefix (finalResponseText (fst s)) (finalResponseText (fst (search_chunk inp c s)))
   \<and> prefix (finalResponseText (fst s)) (finalResponseText (fst (text_chunk inp c s)))
   \<and> prefix (finalResponseText (fst (snd t))) (finalResponseText (fst (snd (simple_chunk inp c t))))
   \<and> (currentAction v \<noteq> CANVAS \<longrightarrow>
        prefix (finalResponseText v) (finalResponseText (fst (snd (run_handler E inp ctx v w)))))
   \<and> (currentAction v = CANVAS \<longrightarrow>
        fst (run_handler E inp ctx v w) \<noteq> Continue
        \<and> (\<forall>r. fst (run_handler E inp ctx v w) = Return r \<longrightarrow>
              finalResponseText (fst (snd (run_handler E inp ctx v w))) = canvas_text E inp v))"
proof -
  have a: "currentAction v \<noteq> CANVAS \<longrightarrow>
        prefix (finalResponseText v) (finalResponseText (fst (snd (run_handler E inp ctx v w))))"
    using run_handler_appends [of v E inp ctx w]
    by (cases "run_handler E inp ctx v w" rule: prod_cases3) simp
  have b: "currentAction v = CANVAS \<longrightarrow>
        fst (run_handler E inp ctx v w) \<noteq> Continue
        \<and> (\<forall>r. fst (run_handler E inp ctx v w) = Return r \<longrightarrow>
              finalResponseText (fst (snd (run_handler E inp ctx v w))) = canvas_text E inp v)"
    using CANVAS_outcome [of E inp ctx v w] by (simp add: run_handler_def)
  show ?thesis
    using a b search_chunk_appends [of s inp c] text_chunk_appends [of s inp c]
      simple_chunk_appends [of t inp c]
    by blast
qed

lemma canvas_first_iteration:
  "run_handler canvas_env example_input example_context (example_vars SIMPLE) world0
   = (Continue, canvas_vars, canvas_world)"
  by (simp add: canvas_env_def canvas_vars_def canvas_world_def eval_agent eval_stream eval_redirect)

lemma canvas_second_iteration:
  "run_handler canvas_env example_input example_context canvas_vars canvas_world
   = (Return \<lparr>messages = [\<lparr>project_id = js ''p1'', chat_id = js ''c1'', sender = js ''ai'',
                 text' = js ''done'', image_base64 = None, groundingMetadata = None\<rparr>]\<rparr>,
      canvas_vars\<lparr>finalResponseText := js ''done''\<rparr>, canvas_world)"
  by (simp add: canvas_env_def canvas_vars_def canvas_world_def eval_agent handle_CANVAS_def)

lemma canvas_turn:
  "map text' (messages (runAutonomousAgent canvas_env example_input)) = [js ''done'']"
  by (simp add: canvas_env_def eval_agent eval_stream eval_redirect handle_CANVAS_def)

theorem handlers_append_but_canvas_replaces_witness:
  "currentAction (example_vars SIMPLE) \<noteq> CANVAS
   \<and> prefix (finalResponseText (example_vars SIMPLE)) (finalResponseText canvas_vars)
   \<and> currentAction canvas_vars = CANVAS
   \<and> fst (run_handler canvas_env example_input example_context canvas_vars canvas_world) \<noteq> Continue
   \<and> finalResponseText (fst (snd (run_handler canvas_env example_input example_context canvas_vars canvas_world)))
       = js ''done''
   \<and> canvas_text canvas_env example_input canvas_vars = js ''done''"
proof -
  have a: "currentAction (example_vars SIMPLE) \<noteq> CANVAS" by (simp add: example_vars_def)
  have b: "currentAction canvas_vars = CANVAS" by (simp add: canvas_vars_def)
  have c: "canvas_text canvas_env example_input canvas_vars = js ''done''"
    by (simp add: canvas_text_def canvas_env_def example_env_def)
  note t1 = handlers_append_but_canvas_replaces
              [of "(example_vars SEARCH, world0)" example_input "\<lparr>chunk_text = Some (js ''Hi''), groundingChunks = None\<rparr>"
                  "([], example_vars SIMPLE, world0)" "example_vars SIMPLE" canvas_env example_context world0]
  note t2 = handlers_append_but_canvas_replaces
              [of "(example_vars SEARCH, world0)" example_input "\<lparr>chunk_text = Some (js ''Hi''), groundingChunks = None\<rparr>"
                  "([], example_vars SIMPLE, world0)" canvas_vars canvas_env example_context canvas_world]
  have p: "prefix (finalResponseText (example_vars SIMPLE)) (finalResponseText canvas_vars)"
    using t1 a by (simp add: canvas_first_iteration)
  have q: "fst (run_handler canvas_env example_input example_context canvas_vars canvas_world) \<noteq> Continue
     \<and> finalResponseText (fst (snd (run_handler canvas_env example_input example_context canvas_vars canvas_world)))
         = canvas_text canvas_env example_input canvas_vars"
    using t2 b by (simp add: canvas_second_iteration)
  show ?thesis using a b c p q by simp
qed

text \<open>
  C3 as stated fails: the SIMPLE handler generates \<open><CANVAS>x</CANVAS>\<close>, which is the
  accumulated text when the loop redirects to CANVAS; the CANVAS handler then sets the
  text to the canvas collaborator's \<open>done\<close>, and the turn returns that.
\<close>

theorem canvas_rewrites_accumulated_text:
  "fst (run_handler canvas_env example_input example_context (example_vars SIMPLE) world0) = Continue
   \<and> finalResponseText (fst (snd (run_handler canvas_env example_input example_context
         (example_vars SIMPLE) world0))) = js ''<CANVAS>x</CANVAS>''
   \<and> map text' (messages (runAutonomousAgent canvas_env example_input)) = [js ''done'']
   \<and> \<not> prefix (js ''<CANVAS>x</CANVAS>'') (js ''done'')"
proof -
  have "\<not> prefix (js ''<CANVAS>x</CANVAS>'') (js ''done'')" by (simp add: js_def)
  then show ?thesis
    by (simp add: canvas_first_iteration canvas_turn canvas_vars_def)
qed

lemma fold_keeps:
  assumes "\<And>c s. f (step c s) = f s"
  shows "f (fold step cs s) = f s"
  by (induction cs arbitrary: s) (simp_all add: assms)

lemma search_chunk_action: "currentAction (fst (search_chunk inp c s)) = currentAction (fst s)"
  by (cases s) (simp add: search_chunk_def push_grounding_def Let_def split: option.splits)

lemma text_chunk_action: "currentAction (fst (text_chunk inp c s)) = currentAction (fst s)"
  by (cases s) (simp add: text_chunk_def Let_def split: option.splits)

lemma simple_chunk_action:
  "currentAction (fst (snd (simple_chunk inp c s))) = currentAction (fst (snd s))"
  by (cases s rule: prod_cases3)
     (simp add: simple_chunk_def push_grounding_def Let_def split: option.splits)

lemma search_stream_action:
  "fold (search_chunk inp) cs (v, w) = (v', w') \<Longrightarrow> currentAction v' = currentAction v"
  using fold_keeps [of "\<lambda>s. currentAction (fst s)" "search_chunk inp" cs "(v, w)"]
  by (simp add: search_chunk_action)

lemma text_stream_action:
  "fold (text_chunk inp) cs (v, w) = (v', w') \<Longrightarrow> currentAction v' = currentAction v"
  using fold_keeps [of "\<lambda>s. currentAction (fst s)" "text_chunk inp" cs "(v, w)"]
  by (simp add: text_chunk_action)

lemma simple_stream_action:
  "fold (simple_chunk inp) cs (g, v, w) = (g', v', w') \<Longrightarrow> currentAction v' = currentAction v"
  using fold_keeps [of "\<lambda>s. currentAction (fst (snd s))" "simple_chunk inp" cs "(g, v, w)"]
  by (simp add: simple_chunk_action)

lemma SEARCH_terminal:
  "handle_SEARCH E inp ctx v w = (out, v', w') \<Longrightarrow> out \<noteq> Continue \<and> currentAction v' = currentAction v"
  by (auto simp: handle_SEARCH_def Let_def split: prod.splits sum.splits option.splits
           dest: search_stream_action)

lemma DEEP_SEARCH_terminal:
  "handle_DEEP_SEARCH E inp ctx v w = (out, v', w') \<Longrightarrow> out \<noteq> Continue \<and> currentAction v' = currentAction v"
  by (auto simp: handle_DEEP_SEARCH_def Let_def split: prod.splits sum.splits option.splits)

lemma THINK_terminal:
  "handle_THINK E inp ctx v w = (out, v', w') \<Longrightarrow> out \<noteq> Continue \<and> currentAction v' = currentAction v"
  by (auto simp: handle_THINK_def Let_def split: prod.splits sum.splits option.splits
           dest: text_stream_action)

lemma IMAGE_terminal:
  "handle_IMAGE E inp ctx v w = (out, v', w') \<Longrightarrow> out \<noteq> Continue \<and> currentAction v' = currentAction v"
  by (auto simp: handle_IMAGE_def Let_def split: prod.splits sum.splits option.splits)

lemma CANVAS_terminal:
  "handle_CANVAS E inp ctx v w = (out, v', w') \<Longrightarrow> out \<noteq> Continue \<and> currentAction v' = currentAction v"
  by (auto simp: handle_CANVAS_def Let_def split: prod.splits sum.splits option.splits list.splits)

lemma PROJECT_terminal:
  "handle_PROJECT E inp ctx v w = (out, v', w') \<Longrightarrow> out \<noteq> Continue \<and> currentAction v' = currentAction v"
  by (auto simp: handle_PROJECT_def Let_def split: prod.splits sum.splits option.splits)

lemma STUDY_terminal:
  "handle_STUDY E inp ctx v w = (out, v', w') \<Longrightarrow> out \<noteq> Continue \<and> currentAction v' = currentAction v"
  by (auto simp: handle_STUDY_def Let_def split: prod.splits sum.splits option.splits
           dest: text_stream_action)

lemma SIMPLE_no_redirect_keeps_action:
  "handle_SIMPLE E inp ctx v w = (out, v', w') \<Longrightarrow> out \<noteq> Continue \<Longrightarrow> currentAction v' = currentAction v"
  by (auto simp: handle_SIMPLE_def Let_def split: prod.splits sum.splits option.splits
           dest: simple_stream_action)

lemma redirect_not_SIMPLE: "redirect original g v = Some v' \<Longrightarrow> currentAction v' \<noteq> SIMPLE"
  by (auto simp: redirect_def Let_def split: option.splits)

lemma SIMPLE_redirects_away:
  "handle_SIMPLE E inp ctx v w = (Continue, v', w') \<Longrightarrow> currentAction v' \<noteq> SIMPLE"
  by (auto simp: handle_SIMPLE_def Let_def split: prod.splits sum.splits option.splits
           dest: redirect_not_SIMPLE)

lemma only_SIMPLE_continues:
  "currentAction v \<noteq> SIMPLE \<Longrightarrow> run_handler E inp ctx v w = (out, v', w') \<Longrightarrow>
     out \<noteq> Continue \<and> currentAction v' = currentAction v"
  unfolding run_handler_def
  by (cases "currentAction v")
     (simp_all add: SEARCH_terminal DEEP_SEARCH_terminal THINK_terminal IMAGE_terminal CANVAS_terminal
        PROJECT_terminal STUDY_terminal)

lemma run_handler_action:
  "run_handler E inp ctx v w = (out, v', w') \<Longrightarrow> out \<noteq> Continue \<Longrightarrow> currentAction v' = currentAction v"
  using only_SIMPLE_continues [of v E inp ctx w out v' w']
        SIMPLE_no_redirect_keeps_action [of E inp ctx v w out v' w']
  by (cases "currentAction v = SIMPLE") (simp_all add: run_handler_def)

lemma continue_leaves_SIMPLE:
  "run_handler E inp ctx v w = (Continue, v', w') \<Longrightarrow> currentAction v = SIMPLE \<and> currentAction v' \<noteq> SIMPLE"
  using only_SIMPLE_continues [of v E inp ctx w Continue v' w']
        SIMPLE_redirects_away [of E inp ctx v w v' w']
  by (cases "currentAction v = SIMPLE") (simp_all add: run_handler_def)

lemma terminal_loop:
  "currentAction v \<noteq> SIMPLE \<Longrightarrow> agent_loop E inp ctx n v w = (r, n', v', w') \<Longrightarrow>
     currentAction v' = currentAction v
     \<and> (currentAction v \<noteq> CANVAS \<longrightarrow> prefix (finalResponseText v) (finalResponseText v'))"
proof -
  assume a: "currentAction v \<noteq> SIMPLE" and l: "agent_loop E inp ctx n v w = (r, n', v', w')"
  show ?thesis
  proof (cases "n < MAX_LOOPS")
    case False
    with l show ?thesis by (auto simp: agent_loop.simps)
  next
    case True
    obtain out v1 w1 where h: "run_handler E inp ctx v w = (out, v1, w1)"
      by (cases "run_handler E inp ctx v w") auto
    from only_SIMPLE_continues [OF a h] have o: "out \<noteq> Continue" "currentAction v1 = currentAction v"
      by simp_all
    from l True h o have "v' = v1" by (cases out) (auto simp: agent_loop.simps)
    with o h show ?thesis using run_handler_appends [of v E inp ctx w out v1 w1] by auto
  qed
qed

lemma turn_appends_without_canvas:
  "agent_loop E inp ctx n v w = (r, n', v', w') \<Longrightarrow> currentAction v \<noteq> CANVAS \<Longrightarrow>
     currentAction v' \<noteq> CANVAS \<Longrightarrow> prefix (finalResponseText v) (finalResponseText v')"
proof -
  assume l: "agent_loop E inp ctx n v w = (r, n', v', w')"
    and a: "currentAction v \<noteq> CANVAS" and b: "currentAction v' \<noteq> CANVAS"
  show ?thesis
  proof (cases "n < MAX_LOOPS")
    case False
    with l show ?thesis by (auto simp: agent_loop.simps)
  next
    case True
    obtain out v1 w1 where h: "run_handler E inp ctx v w = (out, v1, w1)"
      by (cases "run_handler E inp ctx v w") auto
    have p: "prefix (finalResponseText v) (finalResponseText v1)"
      by (rule run_handler_appends [OF a h])
    show ?thesis
    proof (cases "out = Continue")
      case False
      with l True h have "v' = v1" by (cases out) (auto simp: agent_loop.simps)
      with p show ?thesis by simp
    next
      case c: True
      with l True h have l1: "agent_loop E inp ctx (n + 1) v1 w1 = (r, n', v', w')"
        by (simp add: agent_loop.simps)
      from continue_leaves_SIMPLE h c have s: "currentAction v1 \<noteq> SIMPLE" by blast
      from terminal_loop [OF s l1] b have "prefix (finalResponseText v1) (finalResponseText v')"
        by auto
      with p show ?thesis using prefix_order.trans by blast
    qed
  qed
qed

section \<open>Redirect detection\<close>

lemma lazy_dot_needs_close: "lazy_dot (prefix cls) s = Some p \<Longrightarrow> js_includes s cls"
  by (induction s arbitrary: p) (auto split: if_splits)

lemma includes_drop: "js_includes (drop n s) p \<Longrightarrow> js_includes s p"
proof (induction s arbitrary: n)
  case Nil
  then show ?case by simp
next
  case (Cons c cs)
  then show ?case by (cases n) auto
qed

lemma pair_at_needs_close: "pair_at t s = Some p \<Longrightarrow> js_includes s (close_tag t)"
  by (auto simp: pair_at_def split: if_splits dest: lazy_dot_needs_close includes_drop)

lemma unterminated_marker_has_no_pair:
  "\<not> js_includes g (close_tag t) \<Longrightarrow> match_pair t g = None"
proof (induction g)
  case Nil
  then show ?case
    using pair_at_needs_close [of t "[]"] by (cases "pair_at t []") (auto simp: match_pair_def)
next
  case (Cons c cs)
  then show ?case
    using pair_at_needs_close [of t "c # cs"]
    by (cases "pair_at t (c # cs)") (auto simp: match_pair_def)
qed

text \<open>
  What the THINK line of the redirect chain does right: when neither a DEEP_SEARCH nor a
  SEARCH marker matches, a THINK marker with the empty payload and an opening THINK tag
  without a paired match both redirect to THINK with the original prompt of the turn.
\<close>

lemma empty_think_marker_uses_original_prompt:
  assumes "match_pair ''DEEP'' g = None" and "match_deep_search g = None"
    and "match_pair ''SEARCH'' g = None"
    and "match_pair ''THINK'' g = Some []
         \<or> (match_pair ''THINK'' g = None \<and> js_includes g (open_tag ''THINK''))"
  shows "redirect original g v = Some (v\<lparr>currentAction := THINK, currentPrompt := original\<rparr>)"
  using assms by (auto simp: redirect_def Let_def)

lemmas eval_match =
  match_pair_def pair_at_def open_tag_def close_tag_def js_def match_deep_search_def deep_search_at_def
  ci_prefix_def ascii_upper_def is_line_terminator_def is_space_def js_trim_def

lemma empty_think_matches:
  "match_pair ''DEEP'' (js ''<THINK></THINK>'') = None"
  "match_deep_search (js ''<THINK></THINK>'') = None"
  "match_pair ''SEARCH'' (js ''<THINK></THINK>'') = None"
  "match_pair ''THINK'' (js ''<THINK></THINK>'') = Some []"
  by (simp_all add: eval_match)

lemma open_think_matches:
  "match_pair ''DEEP'' (js ''hm <THINK>'') = None"
  "match_deep_search (js ''hm <THINK>'') = None"
  "match_pair ''SEARCH'' (js ''hm <THINK>'') = None"
  "match_pair ''THINK'' (js ''hm <THINK>'') = None"
  "js_includes (js ''hm <THINK>'') (open_tag ''THINK'')"
  by (simp_all add: eval_match)

lemma empty_think_marker_examples:
  "redirect (js ''draw a cat'') (js ''<THINK></THINK>'') (example_vars SIMPLE)
     = Some ((example_vars SIMPLE)\<lparr>currentAction := THINK, currentPrompt := js ''draw a cat''\<rparr>)
   \<and> redirect (js ''draw a cat'') (js ''hm <THINK>'') (example_vars SIMPLE)
     = Some ((example_vars SIMPLE)\<lparr>currentAction := THINK, currentPrompt := js ''draw a cat''\<rparr>)"
  using empty_think_marker_uses_original_prompt
          [of "js ''<THINK></THINK>''" "js ''draw a cat''" "example_vars SIMPLE"]
        empty_think_marker_uses_original_prompt
          [of "js ''hm <THINK>''" "js ''draw a cat''" "example_vars SIMPLE"]
  by (simp only: empty_think_matches open_think_matches simp_thms)

text \<open>
  C4 at its failing input. The SIMPLE handler's output is \<open><THINK> </THINK>\<close>, a THINK
  marker whose payload is one blank, and the original prompt of the turn is
  \<open>draw a cat\<close>. The payload is tested before it is trimmed: it is not empty, so it is
  trimmed, and the loop is redirected to THINK with the empty string as prompt, not with
  the original prompt.
\<close>

theorem blank_think_payload_gives_empty_prompt:
  "redirect (js ''draw a cat'') (js ''<THINK> </THINK>'') (example_vars SIMPLE)
     = Some ((example_vars SIMPLE)\<lparr>currentAction := THINK, currentPrompt := []\<rparr>)
   \<and> js ''draw a cat'' \<noteq> []"
  by (simp add: redirect_def eval_match example_vars_def)











end

